theory Spec2Isabelle
  imports Main "HOL-Library.Multiset" "HOL-Library.Char_ord" "HOL-Library.List_Lexorder"
    "HOL-Library.Code_Target_Nat"
begin

section \<open>Strings and numbers of the host language\<close>

text \<open>
  A JavaScript string is modelled as a \<open>string\<close>: the list of its code units, for the
  strings whose code units are all below 256, the character \<open>c\<close> standing for the code
  unit \<open>of_char c\<close>. A JavaScript number that holds an epoch, a counter or a status is an
  \<open>int\<close> or a \<open>nat\<close>. \<open>digits\<close> is the decimal rendering a template literal gives a
  non-negative integer below \<open>2 ^ 53\<close> (a status, a calendar field).
\<close>

fun digits :: "nat \<Rightarrow> string" where
  "digits n = (if n < 10 then [char_of (48 + n)] else digits (n div 10) @ [char_of (48 + n mod 10)])"

declare digits.simps [simp del]

text \<open>\<open>Array.prototype.join\<close>.\<close>

fun join :: "string \<Rightarrow> string list \<Rightarrow> string" where
  "join sep [] = []"
| "join sep [x] = x"
| "join sep (x # y # zs) = x @ sep @ join sep (y # zs)"

text \<open>
  \<open>Array.prototype.sort\<close> with a comparator. The language specifies the sort as stable;
  for a consistent comparator the result is the stable sorted permutation, which is what
  insertion from the right computes: an element goes in front of the first later element
  it does not compare greater than.
\<close>

fun insert_by :: "('a \<Rightarrow> 'a \<Rightarrow> int) \<Rightarrow> 'a \<Rightarrow> 'a list \<Rightarrow> 'a list" where
  "insert_by cmp x [] = [x]"
| "insert_by cmp x (y # ys) = (if cmp x y \<le> 0 then x # y # ys else y # insert_by cmp x ys)"

definition sort_by :: "('a \<Rightarrow> 'a \<Rightarrow> int) \<Rightarrow> 'a list \<Rightarrow> 'a list" where
  "sort_by cmp xs = foldr (insert_by cmp) xs []"

text \<open>Truthiness of an optional string: \<open>undefined\<close> and the empty string are falsy.\<close>

fun truthy :: "string option \<Rightarrow> bool" where
  "truthy None = False"
| "truthy (Some s) = (s \<noteq> [])"

section \<open>The local capture store (core/database)\<close>

datatype ExtensionType = TWEET | USER

text \<open>
  A stored capture. \<open>capture_id\<close> is the field \<open>id\<close>, \<open>capture_type\<close> the field \<open>type\<close>;
  \<open>sort_index\<close> is \<open>None\<close> when the field is undefined.
\<close>

record Capture =
  capture_id :: string
  extension :: string
  capture_type :: ExtensionType
  data_key :: string
  created_at :: int
  sort_index :: "string option"

text \<open>
  A tweet, as far as the store and the exporter read it: the identifier, the \<open>legacy\<close>
  block (absent in an empty row) with its \<open>created_at\<close> text, and the remaining
  fields as one opaque value.
\<close>

record Legacy =
  legacy_created_at :: string

record 'a Tweet =
  rest_id :: string
  legacy :: "Legacy option"
  other_fields :: 'a

text \<open>An item handed over by a capture producer (\<open>WithSortIndex\<close>).\<close>

record 'a WithSortIndex =
  item_data :: "'a Tweet"
  sortIndex :: "string option"

text \<open>
  The database: the \<open>tweets\<close> table keyed by \<open>rest_id\<close>, the \<open>captures\<close> table keyed by
  \<open>id\<close> and held in primary-key order (the order in which an index query lists the rows of
  one index value), and whether the connection is usable. On an unusable connection every
  request is rejected; the store logs the error, a read yields \<open>undefined\<close> (\<open>None\<close>) and a
  write changes nothing.
\<close>

record 'a Database =
  tweets_table :: "string \<Rightarrow> 'a Tweet option"
  captures_table :: "(string \<times> Capture) list"
  available :: bool

text \<open>\<open>Table.put\<close>: the row replaces the row of an equal key, or is added in key order.\<close>

fun table_put :: "string \<times> 'v \<Rightarrow> (string \<times> 'v) list \<Rightarrow> (string \<times> 'v) list" where
  "table_put (k, v) [] = [(k, v)]"
| "table_put (k, v) ((k', v') # rest) =
     (if k = k' then (k, v) # rest
      else if k < k' then (k, v) # (k', v') # rest
      else (k', v') # table_put (k, v) rest)"

text \<open>\<open>Table.bulkPut\<close>: the rows are put one after the other.\<close>

definition bulkPut :: "(string \<times> 'v) list \<Rightarrow> (string \<times> 'v) list \<Rightarrow> (string \<times> 'v) list" where
  "bulkPut rows table = foldl (\<lambda>t row. table_put row t) table rows"

definition extGetCaptures :: "'a Database \<Rightarrow> string \<Rightarrow> Capture list option" where
  "extGetCaptures db extName =
     (if available db
      then Some (filter (\<lambda>capture. extension capture = extName) (map snd (captures_table db)))
      else None)"

definition extGetCapturesSince :: "'a Database \<Rightarrow> string \<Rightarrow> int \<Rightarrow> Capture list option" where
  "extGetCapturesSince db extName since =
     (if available db
      then Some (filter (\<lambda>capture. extension capture = extName \<and> created_at capture > since)
                   (map snd (captures_table db)))
      else None)"

text \<open>
  The comparator of \<open>sortCaptures\<close>. \<open>compareSortIndex\<close> (utils/api) is not among the
  sources; it is the parameter \<open>cmp\<close>, applied to the two optional keys.
\<close>

definition capture_compare ::
  "(string option \<Rightarrow> string option \<Rightarrow> int) \<Rightarrow> Capture \<Rightarrow> Capture \<Rightarrow> int" where
  "capture_compare cmp a b =
     (if truthy (sort_index a) \<and> truthy (sort_index b) then cmp (sort_index a) (sort_index b)
      else if truthy (sort_index a) then - 1
      else if truthy (sort_index b) then 1
      else created_at b - created_at a)"

definition sortCaptures ::
  "(string option \<Rightarrow> string option \<Rightarrow> int) \<Rightarrow> Capture list \<Rightarrow> Capture list" where
  "sortCaptures cmp captures = sort_by (capture_compare cmp) captures"

definition sortItems ::
  "(string option \<Rightarrow> string option \<Rightarrow> int) \<Rightarrow> 'a WithSortIndex list \<Rightarrow> 'a WithSortIndex list" where
  "sortItems cmp items = sort_by (\<lambda>a b. cmp (sortIndex a) (sortIndex b)) items"

definition filterEmptyData :: "'a Tweet \<Rightarrow> bool" where
  "filterEmptyData data = (legacy data \<noteq> None)"

text \<open>
  The tail shared by \<open>extGetCapturedTweets\<close> and \<open>extGetCapturedTweetsSince\<close>: the sorted
  captures give the identifiers, the table query gives the rows that exist and are not
  empty, and the identifiers are mapped back through a lookup map of those rows.
\<close>

definition stored_tweet :: "'a Database \<Rightarrow> string \<Rightarrow> 'a Tweet option" where
  "stored_tweet db id' =
     (case tweets_table db id' of
        None \<Rightarrow> None
      | Some t \<Rightarrow> if filterEmptyData t then Some t else None)"

definition tweets_of_captures ::
  "(string option \<Rightarrow> string option \<Rightarrow> int) \<Rightarrow> 'a Database \<Rightarrow> Capture list \<Rightarrow> 'a Tweet list" where
  "tweets_of_captures cmp db captures =
     (let tweetIds = map data_key (sortCaptures cmp captures)
      in List.map_filter (stored_tweet db) tweetIds)"

definition extGetCapturedTweets ::
  "(string option \<Rightarrow> string option \<Rightarrow> int) \<Rightarrow> 'a Database \<Rightarrow> string \<Rightarrow> 'a Tweet list" where
  "extGetCapturedTweets cmp db extName =
     (case extGetCaptures db extName of
        None \<Rightarrow> []
      | Some captures \<Rightarrow> tweets_of_captures cmp db captures)"

definition extGetCapturedTweetsSince ::
  "(string option \<Rightarrow> string option \<Rightarrow> int) \<Rightarrow> 'a Database \<Rightarrow> string \<Rightarrow> int \<Rightarrow> 'a Tweet list" where
  "extGetCapturedTweetsSince cmp db extName since =
     (case extGetCapturesSince db extName since of
        None \<Rightarrow> []
      | Some captures \<Rightarrow> if captures = [] then [] else tweets_of_captures cmp db captures)"

text \<open>
  \<open>upsertTweets\<close>: every tweet is stored under its \<open>rest_id\<close> with its private fields
  recomputed. The recomputation uses helpers that are not among the sources
  (\<open>parseTwitterDateTime\<close>, \<open>extractTweetMedia\<close>); it is the parameter \<open>annotate\<close>.
\<close>

definition upsertTweets :: "('a Tweet \<Rightarrow> 'a Tweet) \<Rightarrow> 'a Tweet list \<Rightarrow> 'a Database \<Rightarrow> 'a Database" where
  "upsertTweets annotate tweets db =
     (if available db
      then db\<lparr>tweets_table :=
                foldl (\<lambda>table t. table(rest_id t \<mapsto> annotate t)) (tweets_table db) tweets\<rparr>
      else db)"

definition upsertCaptures :: "Capture list \<Rightarrow> 'a Database \<Rightarrow> 'a Database" where
  "upsertCaptures captures db =
     (if available db
      then db\<lparr>captures_table :=
                bulkPut (map (\<lambda>capture. (capture_id capture, capture)) captures) (captures_table db)\<rparr>
      else db)"

text \<open>
  \<open>extAddTweets\<close>. \<open>now i\<close> is what \<open>Date.now()\<close> returns while the capture of position
  \<open>i\<close> is built.
\<close>

definition new_capture :: "(nat \<Rightarrow> int) \<Rightarrow> string \<Rightarrow> 'a WithSortIndex \<times> nat \<Rightarrow> Capture" where
  "new_capture now extName p =
     (case p of (item, i) \<Rightarrow>
        \<lparr>capture_id = extName @ ''-'' @ rest_id (item_data item),
         extension = extName,
         capture_type = TWEET,
         data_key = rest_id (item_data item),
         created_at = now i + int i,
         sort_index = sortIndex item\<rparr>)"

definition extAddTweets ::
  "(string option \<Rightarrow> string option \<Rightarrow> int) \<Rightarrow> ('a Tweet \<Rightarrow> 'a Tweet) \<Rightarrow> (nat \<Rightarrow> int) \<Rightarrow>
   string \<Rightarrow> 'a WithSortIndex list \<Rightarrow> 'a Database \<Rightarrow> 'a Database" where
  "extAddTweets cmp annotate now extName items db =
     (let sorted = sortItems cmp items;
          db1 = upsertTweets annotate (map item_data sorted) db
      in upsertCaptures (map (new_capture now extName) (zip sorted [0 ..< length sorted])) db1)"

section \<open>Export projection and sync engine (utils/sync)\<close>

subsection \<open>Platform values\<close>

text \<open>
  The value \<open>JSON.parse\<close> returns. The exporter applies nothing but \<open>String\<close> to a
  number it has parsed, so a number is held as the text \<open>String\<close> gives it: the shortest
  decimal text that reads back as the same double, in exponent form from \<open>1e21\<close>. For an
  integer of magnitude up to \<open>2 ^ 53\<close> that is its plain decimal digits, so the number 1
  is \<open>JNumber ''1''\<close>; the number written \<open>1152921504606846976\<close> is
  \<open>JNumber ''1152921504606847000''\<close>. An object is the list of its properties, one entry
  per key.
\<close>

datatype json =
    JNull
  | JBool bool
  | JNumber string
  | JString string
  | JArray "json list"
  | JObject "(string \<times> json) list"

text \<open>
  \<open>String(v)\<close>; \<open>None\<close> when the conversion throws a \<open>TypeError\<close>. An object is converted
  by its \<open>toString\<close>: the inherited one gives \<open>[object Object]\<close>, but a property
  \<open>toString\<close> of the object's own is a parsed value and not a function, and then neither
  it nor \<open>valueOf\<close> gives a primitive. An array joins the \<open>String\<close> of its elements
  with commas, \<open>null\<close> counting as the empty string.
\<close>

fun String_js :: "json \<Rightarrow> string option" where
  "String_js JNull = Some ''null''"
| "String_js (JBool b) = Some (if b then ''true'' else ''false'')"
| "String_js (JNumber shown) = Some shown"
| "String_js (JString s) = Some s"
| "String_js (JArray xs) =
     map_option (join '','') (those (map (\<lambda>x. if x = JNull then Some [] else String_js x) xs))"
| "String_js (JObject props) =
     (if ''toString'' \<in> fst ` set props then None else Some ''[object Object]'')"

text \<open>\<open>parsed?.id\<close>: \<open>None\<close> is \<open>undefined\<close>; only an object has properties of its own.\<close>

fun parsed_id :: "json \<Rightarrow> json option" where
  "parsed_id (JObject props) = map_of props ''id''"
| "parsed_id other = None"

text \<open>\<open>String.prototype.split('\n')\<close>.\<close>

fun split_lines :: "string \<Rightarrow> string list" where
  "split_lines [] = [[]]"
| "split_lines (c # cs) =
     (if c = CHR 0x0A then [] # split_lines cs
      else (case split_lines cs of
              [] \<Rightarrow> [[c]]
            | line # lines \<Rightarrow> (c # line) # lines))"

text \<open>
  \<open>String.prototype.trim\<close> strips white space and line terminators from both ends. Among
  the code units below 256 these are tab, line feed, vertical tab, form feed, carriage
  return, space and the no-break space.
\<close>

definition is_space :: "char \<Rightarrow> bool" where
  "is_space c = (c \<in> {CHR 0x09, CHR 0x0A, CHR 0x0B, CHR 0x0C, CHR 0x0D, CHR 0x20, CHR 0xA0})"

definition trim :: "string \<Rightarrow> string" where
  "trim s = rev (dropWhile is_space (rev (dropWhile is_space s)))"

definition endsWith_newline :: "string \<Rightarrow> bool" where
  "endsWith_newline s = (s \<noteq> [] \<and> last s = CHR 0x0A)"

text \<open>
  A point in time as \<open>dayjs\<close> holds it: the epoch in milliseconds, or \<open>None\<close> for an
  invalid date. \<open>civil_from_days\<close> gives year, month and day of a day count since
  1970-01-01 in the proleptic Gregorian calendar; \<open>toISOString\<close> is
  \<open>Date.prototype.toISOString\<close> for the years 0 to 9999.
\<close>

definition civil_from_days :: "int \<Rightarrow> int \<times> int \<times> int" where
  "civil_from_days z0 =
     (let z = z0 + 719468;
          era = z div 146097;
          doe = z mod 146097;
          yoe = (doe - doe div 1460 + doe div 36524 - doe div 146096) div 365;
          doy = doe - (365 * yoe + yoe div 4 - yoe div 100);
          mp = (5 * doy + 2) div 153;
          d = doy - (153 * mp + 2) div 5 + 1;
          m = (if mp < 10 then mp + 3 else mp - 9);
          y = yoe + era * 400 + (if m \<le> 2 then 1 else 0)
      in (y, m, d))"

definition pad :: "nat \<Rightarrow> int \<Rightarrow> string" where
  "pad width n = replicate (width - length (digits (nat n))) (CHR ''0'') @ digits (nat n)"

definition utc_date :: "int \<Rightarrow> string" where
  "utc_date ms =
     (case civil_from_days (ms div 86400000) of
        (y, m, d) \<Rightarrow> pad 4 y @ ''-'' @ pad 2 m @ ''-'' @ pad 2 d)"

definition toISOString :: "int \<Rightarrow> string" where
  "toISOString ms =
     (let t = ms mod 86400000
      in utc_date ms @ ''T'' @ pad 2 (t div 3600000) @ '':'' @ pad 2 (t div 60000 mod 60) @ '':''
         @ pad 2 (t div 1000 mod 60) @ ''.'' @ pad 3 (t mod 1000) @ ''Z'')"

subsection \<open>Helpers that the sources import\<close>

text \<open>
  The functions \<open>utils/sync\<close> imports from modules that are not among the sources, and
  the two platform functions whose full behaviour is not needed, are parameters:
  \<open>parseTwitterDateTime\<close> (the epoch of a source time stamp, \<open>None\<close> when \<open>isValid()\<close> is
  false), \<open>formatDateTime\<close> at the format \<open>YYYY-MM-DD\<close>, \<open>project_fields\<close> for the
  document fields other than \<open>id\<close> and \<open>created_at\<close> (\<open>extractTweetFullText\<close>,
  \<open>getTweetURL\<close>, \<open>extractTweetMedia\<close>, ...), \<open>JSON.stringify\<close> and \<open>JSON.parse\<close>
  (\<open>None\<close> when it throws).
\<close>

record 'b ObsidianTweet =
  doc_id :: string
  doc_created_at :: string
  doc_fields :: 'b

record ('a, 'b) Helpers =
  parseTwitterDateTime :: "string \<Rightarrow> int option"
  formatDateTime :: "int option \<Rightarrow> string"
  project_fields :: "'a Tweet \<Rightarrow> 'b"
  JSON_stringify :: "'b ObsidianTweet \<Rightarrow> string"
  JSON_parse :: "string \<Rightarrow> json option"

record SyncSummary =
  total :: nat
  synced :: nat
  skipped :: nat
  files :: nat
  errors :: "string list"

record ObsidianResponse =
  status :: nat
  responseText :: string

text \<open>What a rejected promise carries: a \<open>TypeError\<close> of the runtime, or an \<open>Error\<close> with its message.\<close>

datatype failure = TypeError | Failure string

definition OBSIDIAN_DEFAULT_FOLDER :: string where
  "OBSIDIAN_DEFAULT_FOLDER = ''Tweets''"

definition isOkStatus :: "nat \<Rightarrow> bool" where
  "isOkStatus st = (st \<ge> 200 \<and> st < 300)"

subsection \<open>The exporter\<close>

text \<open>
  \<open>toObsidianTweet\<close>. Reading \<open>tweet.legacy.created_at\<close> of a tweet without a legacy
  block throws; the result is then \<open>None\<close>.
\<close>

definition toObsidianTweet :: "('a, 'b) Helpers \<Rightarrow> 'a Tweet \<Rightarrow> 'b ObsidianTweet option" where
  "toObsidianTweet H tweet =
     (case legacy tweet of
        None \<Rightarrow> None
      | Some l \<Rightarrow>
          (let createdAt = parseTwitterDateTime H (legacy_created_at l);
               createdAtIso = (case createdAt of Some t \<Rightarrow> toISOString t | None \<Rightarrow> toISOString 0)
           in Some \<lparr>doc_id = rest_id tweet, doc_created_at = createdAtIso,
                    doc_fields = project_fields H tweet\<rparr>))"

text \<open>
  The loop body of \<open>extractExistingIds\<close>, and the function. What \<open>JSON.parse\<close> or
  \<open>String\<close> throws is caught, and the line adds nothing.
\<close>

definition add_line_id :: "(string \<Rightarrow> json option) \<Rightarrow> string set \<Rightarrow> string \<Rightarrow> string set" where
  "add_line_id parse ids line =
     (let trimmed = trim line
      in if trimmed = [] then ids
         else (case parse trimmed of
                 None \<Rightarrow> ids
               | Some parsed \<Rightarrow>
                   (case parsed_id parsed of
                      None \<Rightarrow> ids
                    | Some v \<Rightarrow>
                        if v = JNull then ids
                        else (case String_js v of
                                None \<Rightarrow> ids
                              | Some shown \<Rightarrow> insert shown ids))))"

definition extractExistingIds :: "(string \<Rightarrow> json option) \<Rightarrow> string \<Rightarrow> string set" where
  "extractExistingIds parse content = foldl (add_line_id parse) {} (split_lines content)"

text \<open>
  The buckets are a \<open>Map\<close> from date key to documents; it lists its entries in the order
  in which the keys were first set.
\<close>

fun bucket_push :: "string \<Rightarrow> 'd \<Rightarrow> (string \<times> 'd list) list \<Rightarrow> (string \<times> 'd list) list" where
  "bucket_push k d [] = [(k, [d])]"
| "bucket_push k d ((k', ds) # rest) =
     (if k = k' then (k', ds @ [d]) # rest else (k', ds) # bucket_push k d rest)"

definition dateKey_of :: "('a, 'b) Helpers \<Rightarrow> Legacy \<Rightarrow> string" where
  "dateKey_of H l = formatDateTime H (parseTwitterDateTime H (legacy_created_at l))"

fun build_buckets ::
  "('a, 'b) Helpers \<Rightarrow> (string \<times> 'b ObsidianTweet list) list \<Rightarrow> 'a Tweet list \<Rightarrow>
   (string \<times> 'b ObsidianTweet list) list option" where
  "build_buckets H buckets [] = Some buckets"
| "build_buckets H buckets (tweet # tweets) =
     (case legacy tweet of
        None \<Rightarrow> None
      | Some l \<Rightarrow>
          (case toObsidianTweet H tweet of
             None \<Rightarrow> None
           | Some doc \<Rightarrow> build_buckets H (bucket_push (dateKey_of H l) doc buckets) tweets))"

text \<open>
  The vault is reached through \<open>getVaultFile\<close> and \<open>putVaultFile\<close>. What the vault answers
  is given by \<open>get\<close> and \<open>put\<close>: a response, or the message of the error the request is
  rejected with. One run asks for every path once, so an answer depends on the request only.
  The state of the bucket loop is the summary and the bodies the vault accepted, by path.
\<close>

type_synonym getter = "string \<Rightarrow> string + ObsidianResponse"
type_synonym putter = "string \<Rightarrow> string \<Rightarrow> string + ObsidianResponse"

definition bucket_path :: "string \<Rightarrow> string \<Rightarrow> string" where
  "bucket_path folder dateKey = folder @ ''/'' @ dateKey @ ''.jsonl''"

definition read_existing :: "getter \<Rightarrow> string \<Rightarrow> string + string" where
  "read_existing get path =
     (case get path of
        Inl message \<Rightarrow> Inl message
      | Inr response \<Rightarrow>
          if status response = 404 then Inr []
          else if isOkStatus (status response) then Inr (responseText response)
          else Inl (''GET '' @ path @ '' failed ('' @ digits (status response) @ '')''))"

definition newItems_of ::
  "('a, 'b) Helpers \<Rightarrow> string \<Rightarrow> 'b ObsidianTweet list \<Rightarrow> 'b ObsidianTweet list" where
  "newItems_of H existingContent items =
     filter (\<lambda>item. doc_id item \<notin> extractExistingIds (JSON_parse H) existingContent) items"

definition newLines_of :: "('a, 'b) Helpers \<Rightarrow> 'b ObsidianTweet list \<Rightarrow> string" where
  "newLines_of H newItems = join [CHR 0x0A] (map (JSON_stringify H) newItems) @ [CHR 0x0A]"

definition combined_content :: "string \<Rightarrow> string \<Rightarrow> string" where
  "combined_content existingContent newLines =
     existingContent
     @ (if existingContent \<noteq> [] \<and> \<not> endsWith_newline existingContent then [CHR 0x0A] else [])
     @ newLines"

definition write_combined :: "putter \<Rightarrow> string \<Rightarrow> string \<Rightarrow> string + unit" where
  "write_combined put path combined =
     (case put path combined of
        Inl message \<Rightarrow> Inl message
      | Inr response \<Rightarrow>
          if \<not> isOkStatus (status response)
          then Inl (''PUT '' @ path @ '' failed ('' @ digits (status response) @ '')'')
          else Inr ())"

definition sync_bucket ::
  "('a, 'b) Helpers \<Rightarrow> string \<Rightarrow> getter \<Rightarrow> putter \<Rightarrow> string \<times> 'b ObsidianTweet list \<Rightarrow>
   SyncSummary \<times> (string \<times> string) list \<Rightarrow> SyncSummary \<times> (string \<times> string) list" where
  "sync_bucket H folder get put bucket st =
     (case bucket of (dateKey, items) \<Rightarrow>
      case st of (summary, written) \<Rightarrow>
        (let path = bucket_path folder dateKey
         in case read_existing get path of
              Inl message \<Rightarrow> (summary\<lparr>errors := errors summary @ [message]\<rparr>, written)
            | Inr existingContent \<Rightarrow>
                (let newItems = newItems_of H existingContent items;
                     summary1 = summary\<lparr>skipped := skipped summary + (length items - length newItems)\<rparr>
                 in if newItems = [] then (summary1, written)
                    else (let combined = combined_content existingContent (newLines_of H newItems)
                          in case write_combined put path combined of
                               Inl message \<Rightarrow> (summary1\<lparr>errors := errors summary1 @ [message]\<rparr>, written)
                             | Inr u \<Rightarrow>
                                 (summary1\<lparr>synced := synced summary1 + length newItems,
                                           files := files summary1 + 1\<rparr>,
                                  written @ [(path, combined)])))))"

definition sync_buckets ::
  "('a, 'b) Helpers \<Rightarrow> string \<Rightarrow> getter \<Rightarrow> putter \<Rightarrow> (string \<times> 'b ObsidianTweet list) list \<Rightarrow>
   SyncSummary \<times> (string \<times> string) list \<Rightarrow> SyncSummary \<times> (string \<times> string) list" where
  "sync_buckets H folder get put buckets st = foldl (\<lambda>s b. sync_bucket H folder get put b s) st buckets"

text \<open>
  \<open>syncHomeTimelineToObsidian(folder)\<close>; \<open>None\<close> for the folder is the default parameter.
  The result is the summary with the accepted writes, or the failure the promise is
  rejected with.
\<close>

definition syncHomeTimelineToObsidian ::
  "('a, 'b) Helpers \<Rightarrow> (string option \<Rightarrow> string option \<Rightarrow> int) \<Rightarrow> getter \<Rightarrow> putter \<Rightarrow>
   'a Database \<Rightarrow> string option \<Rightarrow> failure + SyncSummary \<times> (string \<times> string) list" where
  "syncHomeTimelineToObsidian H cmp get put db folder_arg =
     (let folder = (case folder_arg of None \<Rightarrow> OBSIDIAN_DEFAULT_FOLDER | Some f \<Rightarrow> f);
          tweets = extGetCapturedTweets cmp db ''HomeTimelineModule'';
          summary = \<lparr>total = length tweets, synced = 0, skipped = 0, files = 0, errors = []\<rparr>
      in if tweets = [] then Inr (summary, [])
         else (case build_buckets H [] tweets of
                 None \<Rightarrow> Inl TypeError
               | Some buckets \<Rightarrow> Inr (sync_buckets H folder get put buckets (summary, []))))"

section \<open>The sync scheduler (core/sync)\<close>

text \<open>
  The fields of the manager that a tick reads or writes, and the option
  \<open>homeTimelineLastSyncAt\<close> (\<open>None\<close> when it is not set).
\<close>

record Scheduler =
  inFlight :: bool
  signal_value :: nat
  homeTimelineLastSyncAt :: "int option"

text \<open>
  A tick runs up to an \<open>await\<close>, gives up control, and goes on when the awaited promise
  is settled. \<open>tick_pc\<close> is where a tick stands: it has returned, it waits for
  \<open>db.extGetCapturesSince\<close>, or it waits for \<open>syncHomeTimelineToObsidian\<close>.
\<close>

datatype tick_pc = Returned | AwaitCaptures int | AwaitSync "int option"

text \<open>From \<open>this.inFlight = true\<close> to the call of the sync engine.\<close>

definition tick_begin_sync :: "int option \<Rightarrow> Scheduler \<Rightarrow> Scheduler \<times> tick_pc" where
  "tick_begin_sync lastSyncAt s =
     (s\<lparr>inFlight := True, signal_value := signal_value s + 1\<rparr>, AwaitSync lastSyncAt)"

text \<open>From the entry of \<open>tick\<close> to its first return or \<open>await\<close>.\<close>

definition tick_enter :: "bool \<Rightarrow> bool \<Rightarrow> Scheduler \<Rightarrow> Scheduler \<times> tick_pc" where
  "tick_enter visible onLine s =
     (if inFlight s then (s, Returned)
      else if \<not> visible then (s, Returned)
      else if \<not> onLine then (s, Returned)
      else (case homeTimelineLastSyncAt s of
              None \<Rightarrow> tick_begin_sync None s
            | Some lastSyncAt \<Rightarrow> (s, AwaitCaptures lastSyncAt)))"

text \<open>After \<open>await db.extGetCapturesSince(...)\<close>: \<open>None\<close> is the \<open>undefined\<close> of a failed read.\<close>

definition tick_after_captures ::
  "int \<Rightarrow> Capture list option \<Rightarrow> Scheduler \<Rightarrow> Scheduler \<times> tick_pc" where
  "tick_after_captures lastSyncAt newCaptures s =
     (case newCaptures of
        None \<Rightarrow> (s, Returned)
      | Some captures \<Rightarrow>
          if captures = [] then (s, Returned) else tick_begin_sync (Some lastSyncAt) s)"

text \<open>
  After \<open>await syncHomeTimelineToObsidian(...)\<close>: the rest of the \<open>try\<close> block when the
  promise is fulfilled, the \<open>catch\<close> block when it is rejected, then the \<open>finally\<close> block.
  \<open>now\<close> is what \<open>Date.now()\<close> returns.
\<close>

definition tick_after_sync ::
  "failure + SyncSummary \<Rightarrow> int \<Rightarrow> Scheduler \<Rightarrow> Scheduler" where
  "tick_after_sync settled now s =
     (let s1 = (case settled of
                  Inr result \<Rightarrow> s\<lparr>homeTimelineLastSyncAt := Some now\<rparr>
                | Inl error \<Rightarrow> s)
      in s1\<lparr>inFlight := False, signal_value := signal_value s1 + 1\<rparr>)"



text \<open>
  The call in \<open>tick\<close> is \<open>syncHomeTimelineToObsidian(undefined, lastSyncAt)\<close>. The function
  declares the one parameter \<open>folder\<close>; an argument beyond the declared parameters is
  not bound to anything.
\<close>

definition tick_sync_call ::
  "('a, 'b) Helpers \<Rightarrow> (string option \<Rightarrow> string option \<Rightarrow> int) \<Rightarrow> getter \<Rightarrow> putter \<Rightarrow>
   'a Database \<Rightarrow> int option \<Rightarrow> failure + SyncSummary \<times> (string \<times> string) list" where
  "tick_sync_call H cmp get put db lastSyncAt = syncHomeTimelineToObsidian H cmp get put db None"

text \<open>
  Several ticks in one thread of control. The timer and the subscriptions start ticks
  (\<open>Fire\<close>, with what \<open>document.visibilityState\<close> and \<open>navigator.onLine\<close> say at that
  moment); a waiting tick goes on when its promise is settled (\<open>CapturesSettled\<close>,
  \<open>SyncSettled\<close>, with the position of the tick). Between two events nothing else runs.
  An event for a tick that does not wait for it changes nothing.
\<close>

record Ticks =
  manager :: Scheduler
  pcs :: "tick_pc list"

datatype event =
    Fire bool bool
  | CapturesSettled nat "Capture list option"
  | SyncSettled nat "failure + SyncSummary" int

fun step :: "Ticks \<Rightarrow> event \<Rightarrow> Ticks" where
  "step sys (Fire visible onLine) =
     (case tick_enter visible onLine (manager sys) of
        (s, pc) \<Rightarrow> \<lparr>manager = s, pcs = pcs sys @ [pc]\<rparr>)"
| "step sys (CapturesSettled i newCaptures) =
     (if i < length (pcs sys)
      then (case pcs sys ! i of
              AwaitCaptures lastSyncAt \<Rightarrow>
                (case tick_after_captures lastSyncAt newCaptures (manager sys) of
                   (s, pc) \<Rightarrow> \<lparr>manager = s, pcs = (pcs sys)[i := pc]\<rparr>)
            | other \<Rightarrow> sys)
      else sys)"
| "step sys (SyncSettled i settled now) =
     (if i < length (pcs sys)
      then (case pcs sys ! i of
              AwaitSync lastSyncAt \<Rightarrow>
                \<lparr>manager = tick_after_sync settled now (manager sys), pcs = (pcs sys)[i := Returned]\<rparr>
            | other \<Rightarrow> sys)
      else sys)"

definition run_events :: "Ticks \<Rightarrow> event list \<Rightarrow> Ticks" where
  "run_events sys events = foldl step sys events"

fun awaits_sync :: "tick_pc \<Rightarrow> bool" where
  "awaits_sync (AwaitSync l) = True"
| "awaits_sync other = False"

definition syncs_in_flight :: "Ticks \<Rightarrow> nat" where
  "syncs_in_flight sys = length (filter awaits_sync (pcs sys))"

section \<open>Notions the properties are stated with\<close>

text \<open>
  What the comparator of sort keys has to satisfy for a sort to have a defined result:
  on keys that are present and not empty it compares any two keys one way or the other,
  and transitively.
\<close>

definition consistent_keys :: "(string option \<Rightarrow> string option \<Rightarrow> int) \<Rightarrow> bool" where
  "consistent_keys cmp =
     ((\<forall>x y. truthy x \<and> truthy y \<longrightarrow> cmp x y \<le> 0 \<or> cmp y x \<le> 0) \<and>
      (\<forall>x y z. truthy x \<and> truthy y \<and> truthy z \<and> cmp x y \<le> 0 \<and> cmp y z \<le> 0 \<longrightarrow> cmp x z \<le> 0))"

text \<open>
  The ordering rule for captures in the words of the specification: by sort key when
  both captures have one, a capture with a sort key before one without, otherwise the
  later creation time first.
\<close>

definition capture_before ::
  "(string option \<Rightarrow> string option \<Rightarrow> int) \<Rightarrow> Capture \<Rightarrow> Capture \<Rightarrow> bool" where
  "capture_before cmp a b =
     (if truthy (sort_index a) \<and> truthy (sort_index b) then cmp (sort_index a) (sort_index b) \<le> 0
      else if truthy (sort_index a) then True
      else if truthy (sort_index b) then False
      else created_at b \<le> created_at a)"

text \<open>The number a string of decimal digits stands for.\<close>

definition key_number :: "string \<Rightarrow> nat" where
  "key_number s = foldl (\<lambda>n c. 10 * n + (of_char c - 48)) 0 s"

text \<open>
  Modelled from the spec: \<open>compareSortIndex\<close> (utils/api) is not among the sources. The
  specification orders sort keys ascending and puts an entry with a key before one
  without; the keys are read as decimal numbers.
\<close>

definition compareSortIndex_asc :: "string option \<Rightarrow> string option \<Rightarrow> int" where
  "compareSortIndex_asc a b =
     (case a of
        None \<Rightarrow> (case b of None \<Rightarrow> 0 | Some y \<Rightarrow> 1)
      | Some x \<Rightarrow>
          (case b of
             None \<Rightarrow> - 1
           | Some y \<Rightarrow> if key_number x < key_number y then - 1
                       else if key_number y < key_number x then 1 else 0))"

text \<open>Sample data: captures and tweets of the home timeline, and a database holding them.\<close>

definition capture_of :: "string \<Rightarrow> int \<Rightarrow> string option \<Rightarrow> Capture" where
  "capture_of key at idx =
     \<lparr>capture_id = ''HomeTimelineModule-'' @ key, extension = ''HomeTimelineModule'',
      capture_type = TWEET, data_key = key, created_at = at, sort_index = idx\<rparr>"

definition tweet_of :: "string \<Rightarrow> string \<Rightarrow> unit Tweet" where
  "tweet_of key posted =
     \<lparr>rest_id = key, legacy = Some \<lparr>legacy_created_at = posted\<rparr>, other_fields = ()\<rparr>"

definition keyed_db :: "unit Database" where
  "keyed_db =
     \<lparr>tweets_table = [''101'' \<mapsto> tweet_of ''101'' ''Thu Sep 28 11:07:25 +0000 2023'',
                      ''102'' \<mapsto> tweet_of ''102'' ''Thu Sep 28 11:07:25 +0000 2023'',
                      ''103'' \<mapsto> tweet_of ''103'' ''Thu Sep 28 11:07:25 +0000 2023''],
      captures_table = [(''HomeTimelineModule-101'', capture_of ''101'' 10 (Some ''3'')),
                        (''HomeTimelineModule-102'', capture_of ''102'' 20 (Some ''1'')),
                        (''HomeTimelineModule-103'', capture_of ''103'' 30 (Some ''2''))],
      available = True\<rparr>"

definition unkeyed_db :: "unit Database" where
  "unkeyed_db =
     \<lparr>tweets_table = [''101'' \<mapsto> tweet_of ''101'' ''Thu Sep 28 11:07:25 +0000 2023'',
                      ''102'' \<mapsto> tweet_of ''102'' ''Thu Sep 28 11:07:25 +0000 2023'',
                      ''103'' \<mapsto> tweet_of ''103'' ''Thu Sep 28 11:07:25 +0000 2023''],
      captures_table = [(''HomeTimelineModule-101'', capture_of ''101'' 10 None),
                        (''HomeTimelineModule-102'', capture_of ''102'' 30 None),
                        (''HomeTimelineModule-103'', capture_of ''103'' 20 None)],
      available = True\<rparr>"

text \<open>
  The state of the captures table that the store maintains: the rows are in strict key
  order, every row is keyed by the \<open>id\<close> of its capture, and that \<open>id\<close> is source
  name, hyphen, record identifier.
\<close>

definition well_keyed :: "(string \<times> Capture) list \<Rightarrow> bool" where
  "well_keyed table =
     (sorted_wrt (<) (map fst table) \<and>
      (\<forall>row \<in> set table. fst row = capture_id (snd row) \<and>
                           capture_id (snd row) = extension (snd row) @ ''-'' @ data_key (snd row)))"

text \<open>A sequence of \<open>extAddTweets\<close> calls for one source, each with its clock and items.\<close>

fun add_batches ::
  "(string option \<Rightarrow> string option \<Rightarrow> int) \<Rightarrow> ('a Tweet \<Rightarrow> 'a Tweet) \<Rightarrow> string \<Rightarrow>
   ((nat \<Rightarrow> int) \<times> 'a WithSortIndex list) list \<Rightarrow> 'a Database \<Rightarrow> 'a Database" where
  "add_batches cmp annotate extName [] db = db"
| "add_batches cmp annotate extName ((now, items) # batches) db =
     add_batches cmp annotate extName batches (extAddTweets cmp annotate now extName items db)"

text \<open>The captures \<open>extAddTweets\<close> hands to \<open>upsertCaptures\<close>.\<close>

definition batch_captures ::
  "(string option \<Rightarrow> string option \<Rightarrow> int) \<Rightarrow> (nat \<Rightarrow> int) \<Rightarrow> string \<Rightarrow> 'a WithSortIndex list \<Rightarrow> Capture list" where
  "batch_captures cmp now extName items =
     map (new_capture now extName) (zip (sortItems cmp items) [0 ..< length (sortItems cmp items)])"

text \<open>The record identifiers a table holds for one source.\<close>

definition source_keys :: "string \<Rightarrow> (string \<times> Capture) list \<Rightarrow> string set" where
  "source_keys extName t = data_key ` {c \<in> snd ` set t. extension c = extName}"

text \<open>Sample items, an empty database and two batches.\<close>

definition item_of :: "string \<Rightarrow> string option \<Rightarrow> unit WithSortIndex" where
  "item_of key idx = \<lparr>item_data = tweet_of key ''Thu Sep 28 11:07:25 +0000 2023'', sortIndex = idx\<rparr>"

definition empty_db :: "unit Database" where
  "empty_db = \<lparr>tweets_table = Map.empty, captures_table = [], available = True\<rparr>"

definition sample_batches :: "((nat \<Rightarrow> int) \<times> unit WithSortIndex list) list" where
  "sample_batches =
     [(\<lambda>i. 1000, [item_of ''7'' (Some ''2''), item_of ''8'' None, item_of ''7'' (Some ''1'')]),
      (\<lambda>i. 2000, [item_of ''8'' (Some ''5'')])]"

subsection \<open>Notions for the sync engine\<close>

text \<open>
  The identifier one line of a bucket file stands for: the \<open>String\<close> of the \<open>id\<close> of the
  parsed line, when the line is not blank, parses, and has an \<open>id\<close> that is neither
  \<open>undefined\<close> nor \<open>null\<close> and that \<open>String\<close> converts.
\<close>

definition line_id :: "(string \<Rightarrow> json option) \<Rightarrow> string \<Rightarrow> string option" where
  "line_id parse line =
     (if trim line = [] then None
      else (case parse (trim line) of
              None \<Rightarrow> None
            | Some parsed \<Rightarrow>
                (case parsed_id parsed of
                   None \<Rightarrow> None
                 | Some v \<Rightarrow> if v = JNull then None else String_js v)))"

text \<open>
  The effect of one bucket taken alone, on the zero summary and no writes, and how
  effects add up.
\<close>

definition zero_summary :: SyncSummary where
  "zero_summary = \<lparr>total = 0, synced = 0, skipped = 0, files = 0, errors = []\<rparr>"

definition add_outcome ::
  "SyncSummary \<times> (string \<times> string) list \<Rightarrow> SyncSummary \<times> (string \<times> string) list \<Rightarrow>
   SyncSummary \<times> (string \<times> string) list" where
  "add_outcome st d =
     (\<lparr>total = total (fst st) + total (fst d), synced = synced (fst st) + synced (fst d),
       skipped = skipped (fst st) + skipped (fst d), files = files (fst st) + files (fst d),
       errors = errors (fst st) @ errors (fst d)\<rparr>,
      snd st @ snd d)"

definition bucket_outcome ::
  "('a, 'b) Helpers \<Rightarrow> string \<Rightarrow> getter \<Rightarrow> putter \<Rightarrow> string \<times> 'b ObsidianTweet list \<Rightarrow>
   SyncSummary \<times> (string \<times> string) list" where
  "bucket_outcome H folder get put bucket = sync_bucket H folder get put bucket (zero_summary, [])"

text \<open>
  What the exporter relies on for the documents it writes: \<open>JSON.stringify\<close> puts a
  document on one line, and that line reads back as the document's \<open>id\<close>.
\<close>

definition json_roundtrip :: "('a, 'b) Helpers \<Rightarrow> 'b ObsidianTweet list \<Rightarrow> bool" where
  "json_roundtrip H docs =
     list_all (\<lambda>d. CHR 0x0A \<notin> set (JSON_stringify H d)
                  \<and> line_id (JSON_parse H) (JSON_stringify H d) = Some (doc_id d)) docs"

text \<open>
  Modelled from the spec: \<open>formatDateTime\<close> (utils/common) is not among the sources. The
  specification has the bucket key be the UTC calendar date \<open>YYYY-MM-DD\<close> of the time
  stamp; an invalid date is rendered as \<open>dayjs\<close> renders it.
\<close>

definition formatDateTime_utc :: "int option \<Rightarrow> string" where
  "formatDateTime_utc d = (case d of None \<Rightarrow> ''Invalid Date'' | Some ms \<Rightarrow> utc_date ms)"

text \<open>
  Sample helpers: a parser that knows two time stamps, a \<open>JSON.stringify\<close> that writes
  the \<open>id\<close> alone, a \<open>JSON.parse\<close> for lines of the two shapes \<open>{"id":"..."}\<close> and
  \<open>{"id":123}\<close> (a number of at most 15 digits without a leading zero, which \<open>String\<close>
  gives back digit by digit), and a vault that holds files by path, answers 404 for a
  missing file and accepts every write.
\<close>

definition sample_parse :: "string \<Rightarrow> int option" where
  "sample_parse s =
     (if s = ''Thu Sep 28 11:07:25 +0000 2023'' then Some 1695899245000
      else if s = ''Wed Sep 27 11:07:25 +0000 2023'' then Some 1695812845000
      else None)"

definition flat_stringify :: "unit ObsidianTweet \<Rightarrow> string" where
  \<open>flat_stringify d = ''{"id":"'' @ doc_id d @ ''"}''\<close>

definition is_digit :: "char \<Rightarrow> bool" where
  "is_digit c = (CHR ''0'' \<le> c \<and> c \<le> CHR ''9'')"

definition flat_parse :: "string \<Rightarrow> json option" where
  \<open>flat_parse s =
     (if 9 \<le> length s \<and> take 7 s = ''{"id":"'' \<and> drop (length s - 2) s = ''"}''
      then Some (JObject [(''id'', JString (take (length s - 9) (drop 7 s)))])
      else if 8 \<le> length s \<and> length s \<le> 22 \<and> take 6 s = ''{"id":'' \<and> drop (length s - 1) s = ''}''
              \<and> list_all is_digit (take (length s - 7) (drop 6 s))
              \<and> (length s = 8 \<or> s ! 6 \<noteq> CHR ''0'')
      then Some (JObject [(''id'', JNumber (take (length s - 7) (drop 6 s)))])
      else None)\<close>

definition sample_helpers :: "(unit, unit) Helpers" where
  "sample_helpers =
     \<lparr>parseTwitterDateTime = sample_parse, formatDateTime = formatDateTime_utc,
      project_fields = (\<lambda>t. ()), JSON_stringify = flat_stringify, JSON_parse = flat_parse\<rparr>"

definition doc_of :: "string \<Rightarrow> unit ObsidianTweet" where
  "doc_of key = \<lparr>doc_id = key, doc_created_at = ''2023-09-28T11:07:25.000Z'', doc_fields = ()\<rparr>"

definition vault_get :: "(string \<times> string) list \<Rightarrow> getter" where
  "vault_get stored path =
     (case map_of stored path of
        None \<Rightarrow> Inr \<lparr>status = 404, responseText = []\<rparr>
      | Some content \<Rightarrow> Inr \<lparr>status = 200, responseText = content\<rparr>)"

definition vault_put :: putter where
  "vault_put path content = Inr \<lparr>status = 204, responseText = []\<rparr>"

text \<open>A vault that answers one path with a server error.\<close>

definition failing_get :: "string \<Rightarrow> (string \<times> string) list \<Rightarrow> getter" where
  "failing_get bad stored path =
     (if path = bad then Inr \<lparr>status = 500, responseText = []\<rparr> else vault_get stored path)"

text \<open>
  A bucket file with a line whose \<open>id\<close> is the number 1, a line that is not JSON and a
  blank line; and one with the last two lines only.
\<close>

definition numbered_content :: string where
  \<open>numbered_content = ''{"id":1}'' @ [CHR 0x0A] @ ''no json'' @ [CHR 0x0A] @ ''   ''\<close>

definition unreadable_content :: string where
  "unreadable_content = ''no json'' @ [CHR 0x0A] @ ''   ''"

text \<open>A bucket file whose one line stands between no-break spaces, a tab and a carriage return.\<close>

definition padded_content :: string where
  \<open>padded_content = [CHR 0xA0, CHR 0x09] @ ''{"id":"7"}'' @ [CHR 0x20, CHR 0xA0, CHR 0x0D]\<close>

text \<open>
  The second run finds the file of a bucket as the first run left it: with the content
  the first run wrote or, if it wrote nothing for the bucket, answering as it did then.
\<close>

definition reads_back ::
  "('a, 'b) Helpers \<Rightarrow> string \<Rightarrow> getter \<Rightarrow> putter \<Rightarrow> getter \<Rightarrow> string \<times> 'b ObsidianTweet list \<Rightarrow> bool" where
  "reads_back H folder get1 put1 get2 bucket =
     (read_existing get2 (bucket_path folder (fst bucket))
        = (case snd (bucket_outcome H folder get1 put1 bucket) of
             [] \<Rightarrow> read_existing get1 (bucket_path folder (fst bucket))
           | w # ws \<Rightarrow> Inr (snd w)))"

text \<open>
  A run touches a bucket when it reads the bucket's file, that is, when the read does not
  fail. The writes of a run for a bucket succeeded when the run, having read the file,
  records no error for the bucket: it had nothing to write, or the vault took the write.
\<close>

definition touched :: "string \<Rightarrow> getter \<Rightarrow> string \<times> 'd list \<Rightarrow> bool" where
  "touched folder get bucket =
     (case read_existing get (bucket_path folder (fst bucket)) of
        Inl message \<Rightarrow> False
      | Inr existingContent \<Rightarrow> True)"

definition writes_succeeded ::
  "('a, 'b) Helpers \<Rightarrow> string \<Rightarrow> getter \<Rightarrow> putter \<Rightarrow> string \<times> 'b ObsidianTweet list \<Rightarrow> bool" where
  "writes_succeeded H folder get put bucket =
     (touched folder get bucket \<longrightarrow> errors (fst (bucket_outcome H folder get put bucket)) = [])"

text \<open>\<open>folder\<close> with its default.\<close>

definition folder_of :: "string option \<Rightarrow> string" where
  "folder_of folder_arg = (case folder_arg of None \<Rightarrow> OBSIDIAN_DEFAULT_FOLDER | Some f \<Rightarrow> f)"

text \<open>
  Two runs against the sample vault, the second on the files as the first left them;
  the result is the pair of summaries.
\<close>

definition sync_twice ::
  "('a, 'b) Helpers \<Rightarrow> (string option \<Rightarrow> string option \<Rightarrow> int) \<Rightarrow> (string \<times> string) list \<Rightarrow>
   'a Database \<Rightarrow> string option \<Rightarrow> failure + SyncSummary \<times> SyncSummary" where
  "sync_twice H cmp stored db folder_arg =
     (case syncHomeTimelineToObsidian H cmp (vault_get stored) vault_put db folder_arg of
        Inl e \<Rightarrow> Inl e
      | Inr (summary1, written1) \<Rightarrow>
          (case syncHomeTimelineToObsidian H cmp (vault_get (rev written1 @ stored)) vault_put db
                  folder_arg of
             Inl e \<Rightarrow> Inl e
           | Inr (summary2, written2) \<Rightarrow> Inr (summary1, summary2)))"

text \<open>A vault in which the bucket of 2023-09-28 already holds the document 101.\<close>

definition stored_101 :: "(string \<times> string) list" where
  \<open>stored_101 = [(''Tweets/2023-09-28.jsonl'', ''{"id":"101"}'' @ [CHR 0x0A])]\<close>

text \<open>
  A database with one tweet of 2023-09-27 and one of 2023-09-28, and the buckets they
  are exported to.
\<close>

definition two_day_db :: "unit Database" where
  "two_day_db =
     \<lparr>tweets_table = [''201'' \<mapsto> tweet_of ''201'' ''Wed Sep 27 11:07:25 +0000 2023'',
                      ''202'' \<mapsto> tweet_of ''202'' ''Thu Sep 28 11:07:25 +0000 2023''],
      captures_table = [(''HomeTimelineModule-201'', capture_of ''201'' 10 (Some ''1'')),
                        (''HomeTimelineModule-202'', capture_of ''202'' 20 (Some ''2''))],
      available = True\<rparr>"

definition two_day_buckets :: "(string \<times> unit ObsidianTweet list) list" where
  "two_day_buckets =
     [(''2023-09-27'',
       [\<lparr>doc_id = ''201'', doc_created_at = ''2023-09-27T11:07:25.000Z'', doc_fields = ()\<rparr>]),
      (''2023-09-28'', [doc_of ''202''])]"



text \<open>A scheduler at rest with a recorded last sync, and a tweet whose time stamp does not parse.\<close>

definition idle_scheduler :: Scheduler where
  "idle_scheduler = \<lparr>inFlight = False, signal_value = 0, homeTimelineLastSyncAt = Some 5\<rparr>"

definition undated_db :: "unit Database" where
  "undated_db =
     \<lparr>tweets_table = [''104'' \<mapsto> tweet_of ''104'' ''not a date''],
      captures_table = [(''HomeTimelineModule-104'', capture_of ''104'' 10 None)],
      available = True\<rparr>"

section \<open>Ordering of captures\<close>

lemma mset_insert_by: "mset (insert_by cmp x xs) = add_mset x (mset xs)"
  by (induction xs) auto

lemma mset_sort_by: "mset (sort_by cmp xs) = mset xs"
  unfolding sort_by_def by (induction xs) (auto simp: mset_insert_by)

lemma set_insert_by: "set (insert_by cmp x xs) = insert x (set xs)"
  by (induction xs) auto

lemma set_sort_by: "set (sort_by cmp xs) = set xs"
  unfolding sort_by_def by (induction xs) (auto simp: set_insert_by)

lemma length_sort_by: "length (sort_by cmp xs) = length xs"
  using mset_sort_by [of cmp xs] by (metis size_mset)

lemma sorted_insert_by:
  assumes tot: "\<And>a b. le a b \<or> le b a"
    and trans: "\<And>a b c. le a b \<Longrightarrow> le b c \<Longrightarrow> le a c"
    and le: "\<And>a b. le a b \<longleftrightarrow> cmp a b \<le> 0"
  shows "sorted_wrt le xs \<Longrightarrow> sorted_wrt le (insert_by cmp x xs)"
proof (induction xs)
  case Nil
  then show ?case by simp
next
  case (Cons y ys)
  show ?case
  proof (cases "cmp x y \<le> 0")
    case True
    then have "le x y" by (simp add: le)
    with Cons.prems trans have "\<forall>z\<in>set ys. le x z" by auto
    with True \<open>le x y\<close> Cons.prems show ?thesis by simp
  next
    case False
    then have "le y x" using tot le by blast
    with False Cons show ?thesis by (auto simp: set_insert_by)
  qed
qed

lemma sorted_sort_by:
  assumes tot: "\<And>a b. le a b \<or> le b a"
    and trans: "\<And>a b c. le a b \<Longrightarrow> le b c \<Longrightarrow> le a c"
    and le: "\<And>a b. le a b \<longleftrightarrow> cmp a b \<le> 0"
  shows "sorted_wrt le (sort_by cmp xs)"
proof (induction xs)
  case Nil
  show ?case by (simp add: sort_by_def)
next
  case (Cons x xs)
  have "sort_by cmp (x # xs) = insert_by cmp x (sort_by cmp xs)"
    by (simp add: sort_by_def)
  with Cons sorted_insert_by [of le cmp, OF tot trans le] show ?case by simp
qed

lemma sorted_wrt_mono_set:
  "sorted_wrt P xs \<Longrightarrow> (\<And>a b. a \<in> set xs \<Longrightarrow> b \<in> set xs \<Longrightarrow> P a b \<Longrightarrow> Q a b) \<Longrightarrow> sorted_wrt Q xs"
  by (induction xs) auto

text \<open>The comparator in the code decides exactly the rule of the specification.\<close>

lemma capture_before_compare: "capture_before cmp a b \<longleftrightarrow> capture_compare cmp a b \<le> 0"
  by (simp add: capture_before_def capture_compare_def)

lemma capture_before_total:
  assumes "consistent_keys cmp"
  shows "capture_before cmp a b \<or> capture_before cmp b a"
proof (cases "truthy (sort_index a) \<and> truthy (sort_index b)")
  case True
  with assms have "cmp (sort_index a) (sort_index b) \<le> 0 \<or> cmp (sort_index b) (sort_index a) \<le> 0"
    unfolding consistent_keys_def by blast
  with True show ?thesis by (auto simp: capture_before_def)
next
  case False
  then show ?thesis by (auto simp: capture_before_def)
qed

lemma capture_before_trans:
  assumes "consistent_keys cmp" "capture_before cmp a b" "capture_before cmp b c"
  shows "capture_before cmp a c"
proof (cases "truthy (sort_index a) \<and> truthy (sort_index b) \<and> truthy (sort_index c)")
  case True
  with assms(2,3) have "cmp (sort_index a) (sort_index b) \<le> 0" "cmp (sort_index b) (sort_index c) \<le> 0"
    by (simp_all add: capture_before_def)
  with True assms(1) have "cmp (sort_index a) (sort_index c) \<le> 0"
    unfolding consistent_keys_def by blast
  with True show ?thesis by (simp add: capture_before_def)
next
  case False
  with assms(2,3) show ?thesis by (auto simp: capture_before_def split: if_splits)
qed

lemma sorted_sortCaptures:
  assumes "consistent_keys cmp"
  shows "sorted_wrt (capture_before cmp) (sortCaptures cmp captures)"
  unfolding sortCaptures_def
  by (rule sorted_sort_by [OF capture_before_total [OF assms] capture_before_trans [OF assms]
        capture_before_compare])

lemma compareSortIndex_asc_Some:
  "compareSortIndex_asc (Some x) (Some y) \<le> 0 \<longleftrightarrow> key_number x \<le> key_number y"
  by (simp add: compareSortIndex_asc_def)

lemma consistent_keys_asc: "consistent_keys compareSortIndex_asc"
proof -
  have tot: "compareSortIndex_asc x y \<le> 0 \<or> compareSortIndex_asc y x \<le> 0"
    if "truthy x" "truthy y" for x y
    using that by (cases x; cases y) (auto simp: compareSortIndex_asc_Some)
  have trans: "compareSortIndex_asc x z \<le> 0"
    if "truthy x" "truthy y" "truthy z" "compareSortIndex_asc x y \<le> 0" "compareSortIndex_asc y z \<le> 0"
    for x y z
    using that by (cases x; cases y; cases z) (auto simp: compareSortIndex_asc_Some)
  from tot trans show ?thesis unfolding consistent_keys_def by blast
qed

lemma key_number_samples:
  "key_number ''1'' = 1" "key_number ''2'' = 2" "key_number ''3'' = 3"
  by (simp_all add: key_number_def)

lemma keyed_db_retrieval:
  "map rest_id (extGetCapturedTweets compareSortIndex_asc keyed_db ''HomeTimelineModule'')
     = [''102'', ''103'', ''101'']"
  by code_simp

lemma keyed_db_captures:
  "extGetCaptures keyed_db ''HomeTimelineModule''
     = Some [capture_of ''101'' 10 (Some ''3''), capture_of ''102'' 20 (Some ''1''),
             capture_of ''103'' 30 (Some ''2'')]"
  by (simp add: extGetCaptures_def keyed_db_def capture_of_def)

lemma keyed_db_sorted:
  "sortCaptures compareSortIndex_asc
      [capture_of ''101'' 10 (Some ''3''), capture_of ''102'' 20 (Some ''1''),
       capture_of ''103'' 30 (Some ''2'')]
   = [capture_of ''102'' 20 (Some ''1''), capture_of ''103'' 30 (Some ''2''),
      capture_of ''101'' 10 (Some ''3'')]"
  by (simp add: sortCaptures_def sort_by_def capture_compare_def compareSortIndex_asc_def
        key_number_samples capture_of_def)

lemma unkeyed_db_retrieval:
  "map rest_id (extGetCapturedTweets compareSortIndex_asc unkeyed_db ''HomeTimelineModule'')
     = [''102'', ''103'', ''101'']"
  by code_simp

lemma unkeyed_db_sorted:
  "sortCaptures compareSortIndex_asc
      [capture_of ''101'' 10 None, capture_of ''102'' 30 None, capture_of ''103'' 20 None]
   = [capture_of ''102'' 30 None, capture_of ''103'' 20 None, capture_of ''101'' 10 None]"
  by (simp add: sortCaptures_def sort_by_def capture_compare_def capture_of_def)

text \<open>
  C4. For any list of captures of one source, \<open>sortCaptures\<close> returns the same captures
  arranged by the rule: by sort key (as \<open>compareSortIndex\<close> orders keys) when both
  captures have one, a capture with a sort key before a capture without, otherwise the
  later creation time first. When every capture has a key the result is in key order, and
  when none has one it is in descending order of creation time. \<open>extGetCapturedTweets\<close>
  returns the stored tweets of the captures in that order. A capture has a sort key when
  the field is set and not empty, which is how the code tests it; \<open>compareSortIndex\<close> is
  any comparator that is total and transitive on keys.
\<close>

theorem sortCaptures_order:
  assumes "consistent_keys cmp"
  shows "mset (sortCaptures cmp captures) = mset captures
       \<and> sorted_wrt (capture_before cmp) (sortCaptures cmp captures)
       \<and> ((\<forall>c \<in> set captures. truthy (sort_index c)) \<longrightarrow>
            sorted_wrt (\<lambda>a b. cmp (sort_index a) (sort_index b) \<le> 0) (sortCaptures cmp captures))
       \<and> ((\<forall>c \<in> set captures. \<not> truthy (sort_index c)) \<longrightarrow>
            sorted_wrt (\<lambda>a b. created_at b \<le> created_at a) (sortCaptures cmp captures))
       \<and> extGetCapturedTweets cmp db extName =
            (case extGetCaptures db extName of
               None \<Rightarrow> []
             | Some cs \<Rightarrow> List.map_filter (stored_tweet db) (map data_key (sortCaptures cmp cs)))"
proof -
  have perm: "mset (sortCaptures cmp captures) = mset captures"
    by (simp add: sortCaptures_def mset_sort_by)
  have srt: "sorted_wrt (capture_before cmp) (sortCaptures cmp captures)"
    by (rule sorted_sortCaptures [OF assms])
  have same: "set (sortCaptures cmp captures) = set captures"
    by (simp add: sortCaptures_def set_sort_by)
  have keyed: "sorted_wrt (\<lambda>a b. cmp (sort_index a) (sort_index b) \<le> 0) (sortCaptures cmp captures)"
    if "\<forall>c \<in> set captures. truthy (sort_index c)"
    using srt
  proof (rule sorted_wrt_mono_set)
    fix a b
    assume "a \<in> set (sortCaptures cmp captures)" "b \<in> set (sortCaptures cmp captures)"
      and "capture_before cmp a b"
    with that same show "cmp (sort_index a) (sort_index b) \<le> 0"
      by (simp add: capture_before_def)
  qed
  have unkeyed: "sorted_wrt (\<lambda>a b. created_at b \<le> created_at a) (sortCaptures cmp captures)"
    if "\<forall>c \<in> set captures. \<not> truthy (sort_index c)"
    using srt
  proof (rule sorted_wrt_mono_set)
    fix a b
    assume "a \<in> set (sortCaptures cmp captures)" "b \<in> set (sortCaptures cmp captures)"
      and "capture_before cmp a b"
    with that same show "created_at b \<le> created_at a"
      by (simp add: capture_before_def)
  qed
  have retr: "extGetCapturedTweets cmp db extName =
            (case extGetCaptures db extName of
               None \<Rightarrow> []
             | Some cs \<Rightarrow> List.map_filter (stored_tweet db) (map data_key (sortCaptures cmp cs)))"
    by (simp add: extGetCapturedTweets_def tweets_of_captures_def split: option.splits)
  from perm srt keyed unkeyed retr show ?thesis by blast
qed

text \<open>
  The theorem at the ascending comparator: captures with the sort keys 3, 1, 2 come
  out in the key order 1, 2, 3 and so do their tweets; captures without sort keys,
  created at 10, 30 and 20, come out as 30, 20, 10.
\<close>

theorem sortCaptures_order_witness:
  "consistent_keys compareSortIndex_asc
   \<and> sortCaptures compareSortIndex_asc
        [capture_of ''101'' 10 (Some ''3''), capture_of ''102'' 20 (Some ''1''),
         capture_of ''103'' 30 (Some ''2'')]
      = [capture_of ''102'' 20 (Some ''1''), capture_of ''103'' 30 (Some ''2''),
         capture_of ''101'' 10 (Some ''3'')]
   \<and> sorted_wrt (\<lambda>a b. compareSortIndex_asc (sort_index a) (sort_index b) \<le> 0)
        [capture_of ''102'' 20 (Some ''1''), capture_of ''103'' 30 (Some ''2''),
         capture_of ''101'' 10 (Some ''3'')]
   \<and> map rest_id (extGetCapturedTweets compareSortIndex_asc keyed_db ''HomeTimelineModule'')
      = [''102'', ''103'', ''101'']
   \<and> sorted_wrt (\<lambda>a b. created_at b \<le> created_at a)
        [capture_of ''102'' 30 None, capture_of ''103'' 20 None, capture_of ''101'' 10 None]
   \<and> map rest_id (extGetCapturedTweets compareSortIndex_asc unkeyed_db ''HomeTimelineModule'')
      = [''102'', ''103'', ''101'']"
proof -
  have keyed: "\<forall>c \<in> set [capture_of ''101'' 10 (Some ''3''), capture_of ''102'' 20 (Some ''1''),
         capture_of ''103'' 30 (Some ''2'')]. truthy (sort_index c)"
    by (simp add: capture_of_def)
  have unkeyed: "\<forall>c \<in> set [capture_of ''101'' 10 None, capture_of ''102'' 30 None,
         capture_of ''103'' 20 None]. \<not> truthy (sort_index c)"
    by (simp add: capture_of_def)
  from keyed
    sortCaptures_order [OF consistent_keys_asc,
      of "[capture_of ''101'' 10 (Some ''3''), capture_of ''102'' 20 (Some ''1''),
           capture_of ''103'' 30 (Some ''2'')]" keyed_db "''HomeTimelineModule''"]
  have one: "sorted_wrt (\<lambda>a b. compareSortIndex_asc (sort_index a) (sort_index b) \<le> 0)
        [capture_of ''102'' 20 (Some ''1''), capture_of ''103'' 30 (Some ''2''),
         capture_of ''101'' 10 (Some ''3'')]"
    unfolding keyed_db_sorted by blast
  from unkeyed
    sortCaptures_order [OF consistent_keys_asc,
      of "[capture_of ''101'' 10 None, capture_of ''102'' 30 None, capture_of ''103'' 20 None]"
         unkeyed_db "''HomeTimelineModule''"]
  have two: "sorted_wrt (\<lambda>a b. created_at b \<le> created_at a)
        [capture_of ''102'' 30 None, capture_of ''103'' 20 None, capture_of ''101'' 10 None]"
    unfolding unkeyed_db_sorted by blast
  from one two consistent_keys_asc keyed_db_sorted keyed_db_retrieval unkeyed_db_retrieval
  show ?thesis by blast
qed

section \<open>One capture per source and record\<close>

lemma keys_table_put_map: "set (map fst (table_put (k, v) t)) = insert k (set (map fst t))"
proof (induction t)
  case Nil
  show ?case by simp
next
  case (Cons row t)
  obtain k' v' where row: "row = (k', v')" by (cases row)
  show ?case
  proof (cases "k = k'")
    case True
    with row show ?thesis by simp
  next
    case False
    with row Cons show ?thesis by (cases "k < k'") (simp_all add: insert_commute)
  qed
qed

lemma keys_table_put: "fst ` set (table_put (k, v) t) = insert k (fst ` set t)"
  using keys_table_put_map [of k v t] by simp

lemma set_table_put: "set (table_put (k, v) t) \<subseteq> insert (k, v) (set t)"
  by (induction t) (auto split: if_splits)

lemma sorted_table_put:
  "sorted_wrt (<) (map fst t) \<Longrightarrow> sorted_wrt (<) (map fst (table_put (k, v) t))"
proof (induction t)
  case Nil
  then show ?case by simp
next
  case (Cons row t)
  obtain k' v' where row: "row = (k', v')" by (cases row)
  have "fst ` set (table_put (k, v) t) = insert k (fst ` set t)" by (rule keys_table_put)
  with Cons row show ?case by (auto simp: image_iff)
qed

lemma map_of_table_put: "map_of (table_put (k, v) t) = (map_of t)(k \<mapsto> v)"
  by (induction t) (auto simp: fun_upd_twist)

lemma map_of_bulkPut: "map_of (bulkPut rows t) = map_of t ++ map_of (rev rows)"
  unfolding bulkPut_def
proof (induction rows arbitrary: t)
  case Nil
  show ?case by simp
next
  case (Cons row rows)
  obtain k v where row: "row = (k, v)" by (cases row)
  show ?case by (simp add: Cons row map_of_table_put map_add_def fun_eq_iff split: option.splits)
qed

lemma sorted_bulkPut:
  "sorted_wrt (<) (map fst t) \<Longrightarrow> sorted_wrt (<) (map fst (bulkPut rows t))"
  unfolding bulkPut_def
proof (induction rows arbitrary: t)
  case Nil
  then show ?case by simp
next
  case (Cons row rows)
  obtain k v where row: "row = (k, v)" by (cases row)
  from Cons.prems have "sorted_wrt (<) (map fst (table_put (k, v) t))" by (rule sorted_table_put)
  then show ?case using Cons.IH row by simp
qed

lemma set_bulkPut: "set (bulkPut rows t) \<subseteq> set rows \<union> set t"
  unfolding bulkPut_def
proof (induction rows arbitrary: t)
  case Nil
  show ?case by simp
next
  case (Cons row rows)
  obtain k v where row: "row = (k, v)" by (cases row)
  have "set (foldl (\<lambda>t row. table_put row t) (table_put (k, v) t) rows) \<subseteq> set rows \<union> set (table_put (k, v) t)"
    by (rule Cons.IH)
  with set_table_put [of k v t] show ?case using row by auto
qed

lemma keys_bulkPut: "fst ` set (bulkPut rows t) = fst ` set rows \<union> fst ` set t"
  unfolding bulkPut_def
proof (induction rows arbitrary: t)
  case Nil
  show ?case by simp
next
  case (Cons row rows)
  obtain k v where row: "row = (k, v)" by (cases row)
  show ?case using Cons.IH [of "table_put (k, v) t"] keys_table_put [of k v t] row by auto
qed

lemma strict_sorted_distinct: "sorted_wrt (<) (xs :: string list) \<Longrightarrow> distinct xs"
  by (induction xs) auto

lemma well_keyed_distinct: "well_keyed t \<Longrightarrow> distinct (map fst t)"
  by (simp add: well_keyed_def strict_sorted_distinct)

lemma extAddTweets_captures:
  assumes "available db"
  shows "captures_table (extAddTweets cmp annotate now extName items db)
           = bulkPut (map (\<lambda>c. (capture_id c, c)) (batch_captures cmp now extName items)) (captures_table db)"
    and "available (extAddTweets cmp annotate now extName items db)"
  using assms by (simp_all add: extAddTweets_def upsertTweets_def upsertCaptures_def batch_captures_def Let_def)

lemma batch_captures_fields:
  assumes "c \<in> set (batch_captures cmp now extName items)"
  shows "extension c = extName" "capture_id c = extName @ ''-'' @ data_key c"
    "data_key c \<in> set (map (rest_id \<circ> item_data) items)"
proof -
  from assms obtain p where p: "p \<in> set (zip (sortItems cmp items) [0 ..< length (sortItems cmp items)])"
    and c: "c = new_capture now extName p"
    by (auto simp: batch_captures_def)
  obtain item i where pi: "p = (item, i)" by (cases p)
  from p pi have "item \<in> set (sortItems cmp items)" by (auto dest: set_zip_leftD)
  then have item: "item \<in> set items" by (simp add: sortItems_def set_sort_by)
  from c pi show "extension c = extName" "capture_id c = extName @ ''-'' @ data_key c"
    by (simp_all add: new_capture_def)
  from c pi item show "data_key c \<in> set (map (rest_id \<circ> item_data) items)"
    by (simp add: new_capture_def)
qed

lemma batch_captures_keys:
  "data_key ` set (batch_captures cmp now extName items) = set (map (rest_id \<circ> item_data) items)"
proof -
  have "map data_key (batch_captures cmp now extName items) = map (rest_id \<circ> item_data) (sortItems cmp items)"
    by (simp add: batch_captures_def new_capture_def split_def comp_def map_fst_zip_take
          flip: map_map [of "\<lambda>item. rest_id (item_data item)" fst, unfolded comp_def])
  then have "set (map data_key (batch_captures cmp now extName items)) = set (map (rest_id \<circ> item_data) (sortItems cmp items))"
    by simp
  then show ?thesis by (simp add: sortItems_def set_sort_by)
qed

lemma well_keyed_bulkPut:
  assumes "well_keyed t"
    and "\<forall>c \<in> set cs. capture_id c = extension c @ ''-'' @ data_key c"
  shows "well_keyed (bulkPut (map (\<lambda>c. (capture_id c, c)) cs) t)"
proof -
  from assms(1) have "sorted_wrt (<) (map fst (bulkPut (map (\<lambda>c. (capture_id c, c)) cs) t))"
    by (simp add: well_keyed_def sorted_bulkPut)
  moreover have "fst row = capture_id (snd row) \<and>
      capture_id (snd row) = extension (snd row) @ ''-'' @ data_key (snd row)"
    if "row \<in> set (bulkPut (map (\<lambda>c. (capture_id c, c)) cs) t)" for row
  proof -
    from that set_bulkPut [of "map (\<lambda>c. (capture_id c, c)) cs" t]
    have "row \<in> set (map (\<lambda>c. (capture_id c, c)) cs) \<or> row \<in> set t" by auto
    then show ?thesis
    proof
      assume "row \<in> set (map (\<lambda>c. (capture_id c, c)) cs)"
      with assms(2) show ?thesis by auto
    next
      assume "row \<in> set t"
      with assms(1) show ?thesis by (simp add: well_keyed_def)
    qed
  qed
  ultimately show ?thesis unfolding well_keyed_def by blast
qed

lemma well_keyed_extAddTweets:
  assumes "available db" "well_keyed (captures_table db)"
  shows "well_keyed (captures_table (extAddTweets cmp annotate now extName items db))"
  unfolding extAddTweets_captures(1) [OF assms(1)]
  by (rule well_keyed_bulkPut [OF assms(2)]) (simp add: batch_captures_fields(1,2))

lemma map_of_mem: "distinct (map fst t) \<Longrightarrow> (k, v) \<in> set t \<longleftrightarrow> map_of t k = Some v"
  by (auto dest: map_of_SomeD)

lemma source_keys_bulkPut:
  assumes wk: "well_keyed t"
    and cs: "\<forall>c \<in> set cs. capture_id c = extName @ ''-'' @ data_key c \<and> extension c = extName"
  shows "source_keys extName (bulkPut (map (\<lambda>c. (capture_id c, c)) cs) t)
           = source_keys extName t \<union> data_key ` set cs"
proof -
  let ?rows = "map (\<lambda>c. (capture_id c, c)) cs"
  let ?t' = "bulkPut ?rows t"
  from cs have cs': "\<forall>c \<in> set cs. capture_id c = extension c @ ''-'' @ data_key c" by simp
  have wk': "well_keyed ?t'" by (rule well_keyed_bulkPut [OF wk cs'])
  have d: "distinct (map fst t)" and d': "distinct (map fst ?t')"
    using wk wk' by (simp_all add: well_keyed_distinct)
  have mo: "map_of ?t' = map_of t ++ map_of (rev ?rows)" by (rule map_of_bulkPut)
  show ?thesis
  proof (intro set_eqI iffI)
    fix k assume "k \<in> source_keys extName ?t'"
    then obtain row where row: "row \<in> set ?t'" "extension (snd row) = extName" "k = data_key (snd row)"
      by (auto simp: source_keys_def)
    from row(1) set_bulkPut [of ?rows t] have "row \<in> set ?rows \<or> row \<in> set t" by auto
    then show "k \<in> source_keys extName t \<union> data_key ` set cs"
    proof
      assume "row \<in> set ?rows"
      with row(3) show ?thesis by auto
    next
      assume "row \<in> set t"
      with row(2,3) show ?thesis by (force simp: source_keys_def)
    qed
  next
    fix k assume k: "k \<in> source_keys extName t \<union> data_key ` set cs"
    show "k \<in> source_keys extName ?t'"
    proof (cases "k \<in> data_key ` set cs")
      case True
      then obtain c where c: "c \<in> set cs" "k = data_key c" by auto
      with cs have key: "capture_id c = extName @ ''-'' @ k" by simp
      from c have "capture_id c \<in> fst ` set (rev ?rows)" by force
      then obtain c' where c': "map_of (rev ?rows) (capture_id c) = Some c'"
        by (metis image_set map_of_eq_None_iff not_Some_eq)
      then have "(capture_id c, c') \<in> set ?rows" by (auto dest: map_of_SomeD)
      then have c'cs: "c' \<in> set cs" "capture_id c' = capture_id c" by auto
      with cs key have "extension c' = extName" "data_key c' = k" by auto
      moreover from c' mo have "map_of ?t' (capture_id c) = Some c'" by (simp add: map_add_def)
      then have "(capture_id c, c') \<in> set ?t'" by (rule map_of_SomeD)
      ultimately show ?thesis by (force simp: source_keys_def)
    next
      case False
      with k obtain row where row: "row \<in> set t" "extension (snd row) = extName" "k = data_key (snd row)"
        by (auto simp: source_keys_def)
      with wk have rk: "fst row = extName @ ''-'' @ k" by (auto simp: well_keyed_def)
      have "fst row \<notin> fst ` set ?rows"
      proof
        assume "fst row \<in> fst ` set ?rows"
        then obtain c where "c \<in> set cs" "capture_id c = fst row" by auto
        with cs rk have "c \<in> set cs" "data_key c = k" by auto
        with False show False by auto
      qed
      then have "map_of (rev ?rows) (fst row) = None"
        by (simp add: map_of_eq_None_iff)
      moreover from row(1) d have "map_of t (fst row) = Some (snd row)"
        by (simp flip: map_of_mem)
      ultimately have "map_of ?t' (fst row) = Some (snd row)" using mo by (simp add: map_add_def)
      then have "(fst row, snd row) \<in> set ?t'" by (rule map_of_SomeD)
      with row(2,3) show ?thesis by (force simp: source_keys_def)
    qed
  qed
qed

lemma source_keys_captures:
  "source_keys extName t = set (map data_key (filter (\<lambda>c. extension c = extName) (map snd t)))"
  by (auto simp: source_keys_def)

lemma distinct_map_outer: "distinct (map (\<lambda>x. g (f x)) xs) \<Longrightarrow> distinct (map f xs)"
  by (induction xs) auto

lemma distinct_source_captures:
  assumes "well_keyed t"
  shows "distinct (map data_key (filter (\<lambda>c. extension c = extName) (map snd t)))"
proof -
  let ?rows = "filter (\<lambda>row. extension (snd row) = extName) t"
  from assms have "distinct (map fst ?rows)"
    by (simp add: well_keyed_distinct distinct_map_filter)
  moreover from assms have "map fst ?rows = map (\<lambda>row. extName @ ''-'' @ data_key (snd row)) ?rows"
    by (auto simp: well_keyed_def)
  ultimately have "distinct (map (\<lambda>row. extName @ ''-'' @ data_key (snd row)) ?rows)"
    by simp
  then have "distinct (map (\<lambda>row. data_key (snd row)) ?rows)"
    by (rule distinct_map_outer)
  moreover have "map data_key (filter (\<lambda>c. extension c = extName) (map snd t))
      = map (\<lambda>row. data_key (snd row)) ?rows"
    by (simp add: filter_map comp_def)
  ultimately show ?thesis by simp
qed

lemma distinct_source_record_pairs:
  assumes "well_keyed t"
  shows "distinct (map (\<lambda>row. (extension (snd row), data_key (snd row))) t)"
proof -
  from assms have "distinct (map fst t)" by (rule well_keyed_distinct)
  moreover from assms have "map fst t
      = map (\<lambda>p. fst p @ ''-'' @ snd p) (map (\<lambda>row. (extension (snd row), data_key (snd row))) t)"
    by (auto simp: well_keyed_def)
  ultimately have "distinct (map (\<lambda>row. (\<lambda>p. fst p @ ''-'' @ snd p) (extension (snd row), data_key (snd row))) t)"
    by (simp add: comp_def)
  then show ?thesis by (rule distinct_map_outer)
qed

lemma map_of_rev_last:
  assumes "i < length rows" "rows ! i = (k, v)"
    and "\<forall>j. i < j \<and> j < length rows \<longrightarrow> fst (rows ! j) \<noteq> k"
  shows "map_of (rev rows) k = Some v"
  using assms
proof (induction rows rule: rev_induct)
  case Nil
  then show ?case by simp
next
  case (snoc row rows)
  show ?case
  proof (cases "i = length rows")
    case True
    with snoc.prems(2) show ?thesis by simp
  next
    case False
    with snoc.prems(1) have i: "i < length rows" by simp
    from i have "i < length rows \<and> length rows < length (rows @ [row])" by simp
    with snoc.prems(3) have "fst ((rows @ [row]) ! length rows) \<noteq> k" by blast
    then have ne: "fst row \<noteq> k" by simp
    from i snoc.prems(2) have at: "rows ! i = (k, v)" by (simp add: nth_append)
    have "\<forall>j. i < j \<and> j < length rows \<longrightarrow> fst (rows ! j) \<noteq> k"
    proof (intro allI impI)
      fix j assume j: "i < j \<and> j < length rows"
      then have "i < j \<and> j < length (rows @ [row])" by simp
      with snoc.prems(3) have "fst ((rows @ [row]) ! j) \<noteq> k" by blast
      with j show "fst (rows ! j) \<noteq> k" by (simp add: nth_append)
    qed
    with snoc.IH i at have "map_of (rev rows) k = Some v" by blast
    with ne show ?thesis by (cases row) simp
  qed
qed

lemma last_entry_wins:
  assumes av: "available db"
    and i: "i < length (sortItems cmp items)"
    and last: "\<forall>j. i < j \<and> j < length (sortItems cmp items) \<longrightarrow>
                 rest_id (item_data (sortItems cmp items ! j)) \<noteq> rest_id (item_data (sortItems cmp items ! i))"
  shows "map_of (captures_table (extAddTweets cmp annotate now extName items db))
           (extName @ ''-'' @ rest_id (item_data (sortItems cmp items ! i)))
         = Some (new_capture now extName (sortItems cmp items ! i, i))"
proof -
  let ?sorted = "sortItems cmp items"
  let ?rows = "map (\<lambda>c. (capture_id c, c)) (batch_captures cmp now extName items)"
  have len: "length ?rows = length ?sorted" by (simp add: batch_captures_def)
  have nth: "?rows ! j = (extName @ ''-'' @ rest_id (item_data (?sorted ! j)), new_capture now extName (?sorted ! j, j))"
    if "j < length ?sorted" for j
    using that by (simp add: batch_captures_def new_capture_def)
  have "map_of (rev ?rows) (extName @ ''-'' @ rest_id (item_data (?sorted ! i)))
          = Some (new_capture now extName (?sorted ! i, i))"
  proof (rule map_of_rev_last [where i = i])
    show "i < length ?rows" using i len by simp
    show "?rows ! i = (extName @ ''-'' @ rest_id (item_data (?sorted ! i)), new_capture now extName (?sorted ! i, i))"
      using i by (rule nth)
    show "\<forall>j. i < j \<and> j < length ?rows \<longrightarrow> fst (?rows ! j) \<noteq> extName @ ''-'' @ rest_id (item_data (?sorted ! i))"
    proof (intro allI impI)
      fix j assume j: "i < j \<and> j < length ?rows"
      with len have jl: "i < j \<and> j < length ?sorted" by simp
      with last have "rest_id (item_data (?sorted ! j)) \<noteq> rest_id (item_data (?sorted ! i))" by blast
      moreover from jl have "fst (?rows ! j) = extName @ ''-'' @ rest_id (item_data (?sorted ! j))"
        by (simp add: nth)
      ultimately show "fst (?rows ! j) \<noteq> extName @ ''-'' @ rest_id (item_data (?sorted ! i))"
        by simp
    qed
  qed
  then show ?thesis
    by (simp add: extAddTweets_captures(1) [OF av] map_of_bulkPut map_add_def)
qed

lemma add_batches_invariant:
  assumes "available db" "well_keyed (captures_table db)"
  shows "available (add_batches cmp annotate extName batches db)
       \<and> well_keyed (captures_table (add_batches cmp annotate extName batches db))
       \<and> source_keys extName (captures_table (add_batches cmp annotate extName batches db))
           = source_keys extName (captures_table db)
             \<union> (\<Union>batch \<in> set batches. set (map (rest_id \<circ> item_data) (snd batch)))"
  using assms
proof (induction batches arbitrary: db)
  case Nil
  then show ?case by simp
next
  case (Cons batch batches)
  obtain now items where batch: "batch = (now, items)" by (cases batch)
  let ?db1 = "extAddTweets cmp annotate now extName items db"
  have av1: "available ?db1" by (rule extAddTweets_captures(2) [OF Cons.prems(1)])
  have wk1: "well_keyed (captures_table ?db1)"
    by (rule well_keyed_extAddTweets [OF Cons.prems])
  have keys1: "source_keys extName (captures_table ?db1)
      = source_keys extName (captures_table db) \<union> set (map (rest_id \<circ> item_data) items)"
    unfolding extAddTweets_captures(1) [OF Cons.prems(1)]
    by (subst source_keys_bulkPut [OF Cons.prems(2)])
       (simp_all add: batch_captures_fields(1,2) batch_captures_keys)
  from Cons.IH [OF av1 wk1] keys1 batch show ?case by (simp add: Un_assoc)
qed

text \<open>
  C9 (amended). On a usable database whose captures table is well keyed (the empty
  table is), after any sequence of \<open>extAddTweets\<close> batches for a source: the table holds
  at most one capture per pair of source name and record identifier; \<open>extGetCaptures\<close>
  returns, for that source, exactly one capture per record identifier that was stored
  before or submitted in a batch; and within one batch the capture stored for a record
  identifier is the one built from the last entry with that identifier in the batch as
  sorted by \<open>sortItems\<close>, not as submitted.
\<close>

theorem one_capture_per_record:
  assumes "available db" and "well_keyed (captures_table db)"
  shows "distinct (map (\<lambda>row. (extension (snd row), data_key (snd row)))
            (captures_table (add_batches cmp annotate extName batches db)))
       \<and> (\<exists>cs. extGetCaptures (add_batches cmp annotate extName batches db) extName = Some cs
              \<and> distinct (map data_key cs)
              \<and> set (map data_key cs)
                  = source_keys extName (captures_table db)
                    \<union> (\<Union>batch \<in> set batches. set (map (rest_id \<circ> item_data) (snd batch))))
       \<and> (\<forall>i. i < length (sortItems cmp items)
              \<and> (\<forall>j. i < j \<and> j < length (sortItems cmp items) \<longrightarrow>
                     rest_id (item_data (sortItems cmp items ! j))
                       \<noteq> rest_id (item_data (sortItems cmp items ! i)))
            \<longrightarrow> map_of (captures_table (extAddTweets cmp annotate now extName items db))
                   (extName @ ''-'' @ rest_id (item_data (sortItems cmp items ! i)))
                 = Some (new_capture now extName (sortItems cmp items ! i, i)))"
proof -
  let ?db' = "add_batches cmp annotate extName batches db"
  from add_batches_invariant [OF assms, of cmp annotate extName batches]
  have av: "available ?db'" and wk: "well_keyed (captures_table ?db')"
    and keys: "source_keys extName (captures_table ?db')
           = source_keys extName (captures_table db)
             \<union> (\<Union>batch \<in> set batches. set (map (rest_id \<circ> item_data) (snd batch)))"
    by blast+
  have pairs: "distinct (map (\<lambda>row. (extension (snd row), data_key (snd row))) (captures_table ?db'))"
    by (rule distinct_source_record_pairs [OF wk])
  let ?cs = "filter (\<lambda>c. extension c = extName) (map snd (captures_table ?db'))"
  have "extGetCaptures ?db' extName = Some ?cs" using av by (simp add: extGetCaptures_def)
  moreover have "distinct (map data_key ?cs)" by (rule distinct_source_captures [OF wk])
  moreover have "set (map data_key ?cs) = source_keys extName (captures_table db)
             \<union> (\<Union>batch \<in> set batches. set (map (rest_id \<circ> item_data) (snd batch)))"
    using keys by (simp only: source_keys_captures)
  ultimately have one: "\<exists>cs. extGetCaptures ?db' extName = Some cs
              \<and> distinct (map data_key cs)
              \<and> set (map data_key cs)
                  = source_keys extName (captures_table db)
                    \<union> (\<Union>batch \<in> set batches. set (map (rest_id \<circ> item_data) (snd batch)))"
    by blast
  have last: "\<forall>i. i < length (sortItems cmp items)
              \<and> (\<forall>j. i < j \<and> j < length (sortItems cmp items) \<longrightarrow>
                     rest_id (item_data (sortItems cmp items ! j))
                       \<noteq> rest_id (item_data (sortItems cmp items ! i)))
            \<longrightarrow> map_of (captures_table (extAddTweets cmp annotate now extName items db))
                   (extName @ ''-'' @ rest_id (item_data (sortItems cmp items ! i)))
                 = Some (new_capture now extName (sortItems cmp items ! i, i))"
    using last_entry_wins [OF assms(1)] by blast
  from pairs one last show ?thesis by blast
qed

lemma sample_batches_stored:
  "extGetCaptures (add_batches compareSortIndex_asc id ''HomeTimelineModule'' sample_batches empty_db)
     ''HomeTimelineModule''
   = Some [capture_of ''7'' 1001 (Some ''2''), capture_of ''8'' 2000 (Some ''5'')]"
  by code_simp

lemma sample_batch_sorted:
  "sortItems compareSortIndex_asc [item_of ''7'' (Some ''2''), item_of ''8'' None, item_of ''7'' (Some ''1'')]
     = [item_of ''7'' (Some ''1''), item_of ''7'' (Some ''2''), item_of ''8'' None]"
  by code_simp

lemma empty_db_well_keyed: "available empty_db" "well_keyed (captures_table empty_db)"
  by (simp_all add: empty_db_def well_keyed_def)

text \<open>
  C9 on two batches for the empty database: record 7 is submitted twice in the first batch
  (with sort keys 2 and 1) and record 8 is captured again by the second batch.
\<close>

theorem one_capture_per_record_witness:
  "available empty_db \<and> well_keyed (captures_table empty_db)
   \<and> extGetCaptures (add_batches compareSortIndex_asc id ''HomeTimelineModule'' sample_batches empty_db)
        ''HomeTimelineModule''
      = Some [capture_of ''7'' 1001 (Some ''2''), capture_of ''8'' 2000 (Some ''5'')]
   \<and> distinct (map (\<lambda>row. (extension (snd row), data_key (snd row)))
        (captures_table (add_batches compareSortIndex_asc id ''HomeTimelineModule'' sample_batches empty_db)))
   \<and> map_of (captures_table
        (extAddTweets compareSortIndex_asc id (\<lambda>i. 1000) ''HomeTimelineModule''
           [item_of ''7'' (Some ''2''), item_of ''8'' None, item_of ''7'' (Some ''1'')] empty_db))
        ''HomeTimelineModule-7''
      = Some (new_capture (\<lambda>i. 1000) ''HomeTimelineModule'' (item_of ''7'' (Some ''2''), 1))"
proof -
  let ?items = "[item_of ''7'' (Some ''2''), item_of ''8'' None, item_of ''7'' (Some ''1'')]"
  note inst = one_capture_per_record [OF empty_db_well_keyed,
      of compareSortIndex_asc id "''HomeTimelineModule''" sample_batches ?items "\<lambda>i. 1000"]
  from inst have pairs: "distinct (map (\<lambda>row. (extension (snd row), data_key (snd row)))
        (captures_table (add_batches compareSortIndex_asc id ''HomeTimelineModule'' sample_batches empty_db)))"
    by blast
  have pos: "(1::nat) < length (sortItems compareSortIndex_asc ?items)
      \<and> (\<forall>j. 1 < j \<and> j < length (sortItems compareSortIndex_asc ?items) \<longrightarrow>
             rest_id (item_data (sortItems compareSortIndex_asc ?items ! j))
               \<noteq> rest_id (item_data (sortItems compareSortIndex_asc ?items ! 1)))"
  proof (intro conjI allI impI)
    show "(1::nat) < length (sortItems compareSortIndex_asc ?items)"
      by (simp add: sample_batch_sorted)
    fix j :: nat
    assume "1 < j \<and> j < length (sortItems compareSortIndex_asc ?items)"
    then have "j = 2" by (simp add: sample_batch_sorted)
    then show "rest_id (item_data (sortItems compareSortIndex_asc ?items ! j))
               \<noteq> rest_id (item_data (sortItems compareSortIndex_asc ?items ! 1))"
      unfolding sample_batch_sorted by (simp add: item_of_def tweet_of_def)
  qed
  from inst pos have "map_of (captures_table
        (extAddTweets compareSortIndex_asc id (\<lambda>i. 1000) ''HomeTimelineModule'' ?items empty_db))
        (''HomeTimelineModule'' @ ''-'' @ rest_id (item_data (sortItems compareSortIndex_asc ?items ! 1)))
      = Some (new_capture (\<lambda>i. 1000) ''HomeTimelineModule'' (sortItems compareSortIndex_asc ?items ! 1, 1))"
    by blast
  then have wins: "map_of (captures_table
        (extAddTweets compareSortIndex_asc id (\<lambda>i. 1000) ''HomeTimelineModule'' ?items empty_db))
        ''HomeTimelineModule-7''
      = Some (new_capture (\<lambda>i. 1000) ''HomeTimelineModule'' (item_of ''7'' (Some ''2''), 1))"
    unfolding sample_batch_sorted by (simp add: item_of_def tweet_of_def)
  from empty_db_well_keyed sample_batches_stored pairs wins show ?thesis by blast
qed

text \<open>
  C9 as stated, with the entry submitted last winning, fails: record 7 is submitted with sort key 2 and then with sort key
  1; the batch is sorted ascending before it is written, so the capture that stays is the
  one of the entry submitted first.
\<close>

theorem last_submitted_counterexample:
  "extGetCaptures
     (extAddTweets compareSortIndex_asc id (\<lambda>i. 1000) ''HomeTimelineModule''
        [item_of ''7'' (Some ''2''), item_of ''7'' (Some ''1'')] empty_db)
     ''HomeTimelineModule''
     = Some [capture_of ''7'' 1001 (Some ''2'')]
   \<and> sortIndex (last [item_of ''7'' (Some ''2''), item_of ''7'' (Some ''1'')]) = Some ''1''"
  by code_simp

section \<open>The identifiers of a bucket file\<close>

lemma add_line_id_line_id:
  "add_line_id parse ids line = (case line_id parse line of None \<Rightarrow> ids | Some i \<Rightarrow> insert i ids)"
  by (simp add: add_line_id_def line_id_def Let_def split: option.splits)

lemma foldl_add_line_id:
  "foldl (add_line_id parse) ids ls = ids \<union> {i. \<exists>line \<in> set ls. line_id parse line = Some i}"
proof (induction ls arbitrary: ids)
  case Nil
  show ?case by simp
next
  case (Cons l ls)
  have "foldl (add_line_id parse) ids (l # ls)
      = add_line_id parse ids l \<union> {i. \<exists>line \<in> set ls. line_id parse line = Some i}"
    by (simp add: Cons)
  also have "\<dots> = ids \<union> {i. \<exists>line \<in> set (l # ls). line_id parse line = Some i}"
    unfolding add_line_id_line_id by (cases "line_id parse l") auto
  finally show ?case .
qed

lemma extractExistingIds_lines:
  "extractExistingIds parse content = {i. \<exists>line \<in> set (split_lines content). line_id parse line = Some i}"
  by (simp add: extractExistingIds_def foldl_add_line_id)

lemma split_lines_nonempty: "split_lines s \<noteq> []"
  by (induction s) (auto split: list.splits)

lemma split_lines_append_newline:
  "split_lines (a @ CHR 0x0A # b) = split_lines a @ split_lines b"
proof (induction a)
  case Nil
  show ?case by simp
next
  case (Cons c a)
  obtain l ls where "split_lines a = l # ls"
    using split_lines_nonempty [of a] by (cases "split_lines a") auto
  with Cons show ?case by simp
qed

lemma split_lines_no_newline: "CHR 0x0A \<notin> set s \<Longrightarrow> split_lines s = [s]"
  by (induction s) auto

lemma line_id_empty: "line_id parse [] = None"
  by (simp add: line_id_def trim_def)

lemma sync_bucket_frame:
  "sync_bucket H folder get put bucket st = add_outcome st (bucket_outcome H folder get put bucket)"
  by (cases bucket; cases st)
     (simp add: sync_bucket_def bucket_outcome_def add_outcome_def zero_summary_def Let_def
        split: sum.splits)

lemma sync_buckets_frame:
  "sync_buckets H folder get put buckets st
     = foldl add_outcome st (map (bucket_outcome H folder get put) buckets)"
  unfolding sync_buckets_def
proof (induction buckets arbitrary: st)
  case Nil
  show ?case by simp
next
  case (Cons b bs)
  show ?case by (simp add: Cons sync_bucket_frame [of H folder get put b st])
qed

lemma split_lines_snoc_newline: "split_lines (a @ [CHR 0x0A]) = split_lines a @ [[]]"
  using split_lines_append_newline [of a "[]"] by simp

lemma ids_append_newline:
  "extractExistingIds parse (a @ CHR 0x0A # b) = extractExistingIds parse a \<union> extractExistingIds parse b"
  by (auto simp: extractExistingIds_lines split_lines_append_newline)

lemma ids_empty: "extractExistingIds parse [] = {}"
  by (simp add: extractExistingIds_lines line_id_empty)

lemma ids_snoc_newline:
  "extractExistingIds parse (a @ [CHR 0x0A]) = extractExistingIds parse a"
  using ids_append_newline [of parse a "[]"] by (simp add: ids_empty)

lemma ids_combined_content:
  "extractExistingIds parse (combined_content existing newLines)
     = extractExistingIds parse existing \<union> extractExistingIds parse newLines"
proof (cases "existing = []")
  case True
  then show ?thesis by (simp add: combined_content_def ids_empty)
next
  case False
  show ?thesis
  proof (cases "endsWith_newline existing")
    case True
    with False obtain e where e: "existing = e @ [CHR 0x0A]"
      by (metis append_butlast_last_id endsWith_newline_def)
    have "combined_content existing newLines = e @ CHR 0x0A # newLines"
      using True False e by (simp add: combined_content_def)
    then show ?thesis by (simp add: ids_append_newline e ids_empty)
  next
    case no: False
    with False have "combined_content existing newLines = existing @ CHR 0x0A # newLines"
      by (simp add: combined_content_def)
    then show ?thesis by (simp add: ids_append_newline)
  qed
qed

lemma join_Cons: "join sep (x # xs) = (if xs = [] then x else x @ sep @ join sep xs)"
  by (cases xs) simp_all

lemma split_lines_join:
  assumes "\<forall>l \<in> set ls. CHR 0x0A \<notin> set l"
  shows "split_lines (join [CHR 0x0A] ls @ [CHR 0x0A]) = (if ls = [] then [[]] else ls) @ [[]]"
  using assms
proof (induction ls)
  case Nil
  show ?case by simp
next
  case (Cons x xs)
  show ?case
  proof (cases "xs = []")
    case True
    with Cons.prems show ?thesis
      by (simp add: split_lines_snoc_newline split_lines_no_newline)
  next
    case False
    then have "join [CHR 0x0A] (x # xs) @ [CHR 0x0A] = x @ CHR 0x0A # (join [CHR 0x0A] xs @ [CHR 0x0A])"
      by (simp add: join_Cons)
    then have "split_lines (join [CHR 0x0A] (x # xs) @ [CHR 0x0A])
        = split_lines x @ split_lines (join [CHR 0x0A] xs @ [CHR 0x0A])"
      by (simp only: split_lines_append_newline)
    with Cons False show ?thesis by (simp add: split_lines_no_newline)
  qed
qed

lemma ids_newLines:
  assumes "json_roundtrip H docs"
  shows "extractExistingIds (JSON_parse H) (newLines_of H docs) = doc_id ` set docs"
proof -
  from assms have nl: "\<forall>l \<in> set (map (JSON_stringify H) docs). CHR 0x0A \<notin> set l"
    and rt: "\<forall>d \<in> set docs. line_id (JSON_parse H) (JSON_stringify H d) = Some (doc_id d)"
    by (auto simp: json_roundtrip_def list_all_iff)
  have "set (split_lines (newLines_of H docs)) = insert [] (JSON_stringify H ` set docs)"
    unfolding newLines_of_def split_lines_join [OF nl] by auto
  then have "extractExistingIds (JSON_parse H) (newLines_of H docs)
      = {i. \<exists>d \<in> set docs. line_id (JSON_parse H) (JSON_stringify H d) = Some i}"
    by (auto simp: extractExistingIds_lines line_id_empty)
  with rt show ?thesis by auto
qed

section \<open>Merging a bucket\<close>

lemma trim_sample_line: \<open>trim ''{"id":"1"}'' = ''{"id":"1"}''\<close>
  by code_simp

lemma split_sample_content: \<open>split_lines (''{"id":"1"}'' @ [CHR 0x0A]) = [''{"id":"1"}'', []]\<close>
  by (simp add: split_lines_snoc_newline split_lines_no_newline)

lemma combined_content_cases:
  "combined_content existing newLines
     = (if existing \<noteq> [] \<and> last existing \<noteq> CHR 0x0A then existing @ [CHR 0x0A] @ newLines
        else existing @ newLines)"
  by (simp add: combined_content_def endsWith_newline_def)

lemma sync_bucket_writes:
  assumes read: "read_existing get (bucket_path folder dateKey) = Inr existing"
    and new: "new = filter (\<lambda>item. doc_id item \<notin> extractExistingIds (JSON_parse H) existing) items"
      "new \<noteq> []"
    and body: "body = existing
                      @ (if existing \<noteq> [] \<and> last existing \<noteq> CHR 0x0A then [CHR 0x0A] else [])
                      @ join [CHR 0x0A] (map (JSON_stringify H) new) @ [CHR 0x0A]"
    and put: "put (bucket_path folder dateKey) body = Inr response" "isOkStatus (status response)"
  shows "sync_bucket H folder get put (dateKey, items) (summary, written)
           = (summary\<lparr>skipped := skipped summary + (length items - length new),
                      synced := synced summary + length new, files := files summary + 1\<rparr>,
              written @ [(bucket_path folder dateKey, body)])"
proof -
  have items: "newItems_of H existing items = new" by (simp add: newItems_of_def new)
  have combined: "combined_content existing (newLines_of H new) = body"
    by (simp add: combined_content_def endsWith_newline_def newLines_of_def body)
  have "write_combined put (bucket_path folder dateKey) body = Inr ()"
    using put by (simp add: write_combined_def)
  with read items combined new(2) show ?thesis
    by (simp add: sync_bucket_def Let_def)
qed

lemma sync_bucket_sample:
  assumes ids: "doc_id old_doc = ''1''" "doc_id new_doc = ''2''"
    and get: \<open>get (bucket_path folder dateKey)
                = Inr \<lparr>status = 200, responseText = ''{"id":"1"}'' @ [CHR 0x0A]\<rparr>\<close>
    and parse: \<open>JSON_parse H ''{"id":"1"}'' = Some (JObject [(''id'', JString ''1'')])\<close>
    and line: "CHR 0x0A \<notin> set (JSON_stringify H new_doc)"
    and put: \<open>put (bucket_path folder dateKey)
                (''{"id":"1"}'' @ [CHR 0x0A] @ JSON_stringify H new_doc @ [CHR 0x0A]) = Inr response\<close>
      "isOkStatus (status response)"
  shows \<open>sync_bucket H folder get put (dateKey, [old_doc, new_doc]) (summary, written)
           = (summary\<lparr>skipped := skipped summary + 1, synced := synced summary + 1,
                      files := files summary + 1\<rparr>,
              written @ [(bucket_path folder dateKey,
                          ''{"id":"1"}'' @ [CHR 0x0A] @ JSON_stringify H new_doc @ [CHR 0x0A])])
         \<and> split_lines (''{"id":"1"}'' @ [CHR 0x0A] @ JSON_stringify H new_doc @ [CHR 0x0A])
           = [''{"id":"1"}'', JSON_stringify H new_doc, []]\<close>
proof -
  let ?existing = \<open>''{"id":"1"}'' @ [CHR 0x0A]\<close>
  have read: "read_existing get (bucket_path folder dateKey) = Inr ?existing"
    by (simp add: read_existing_def get isOkStatus_def)
  have \<open>line_id (JSON_parse H) ''{"id":"1"}'' = Some ''1''\<close>
    unfolding line_id_def trim_sample_line by (simp add: parse)
  then have existing_ids: "extractExistingIds (JSON_parse H) ?existing = {''1''}"
    unfolding extractExistingIds_lines split_sample_content by (auto simp: line_id_empty)
  have new: "newItems_of H ?existing [old_doc, new_doc] = [new_doc]"
    unfolding newItems_of_def existing_ids by (simp add: ids)
  have lines: "newLines_of H [new_doc] = JSON_stringify H new_doc @ [CHR 0x0A]"
    by (simp add: newLines_of_def)
  have combined: "combined_content ?existing (JSON_stringify H new_doc @ [CHR 0x0A])
      = ?existing @ JSON_stringify H new_doc @ [CHR 0x0A]"
    by (simp add: combined_content_def endsWith_newline_def)
  have written: "write_combined put (bucket_path folder dateKey)
      (?existing @ JSON_stringify H new_doc @ [CHR 0x0A]) = Inr ()"
    using put by (simp add: write_combined_def)
  have run: \<open>sync_bucket H folder get put (dateKey, [old_doc, new_doc]) (summary, written)
           = (summary\<lparr>skipped := skipped summary + 1, synced := synced summary + 1,
                      files := files summary + 1\<rparr>,
              written @ [(bucket_path folder dateKey,
                          ''{"id":"1"}'' @ [CHR 0x0A] @ JSON_stringify H new_doc @ [CHR 0x0A])])\<close>
    unfolding sync_bucket_def Let_def
    by (simp add: read [simplified] new [simplified] lines combined [simplified]
          written [simplified])
  have \<open>split_lines ((''{"id":"1"}'' @ [CHR 0x0A] @ JSON_stringify H new_doc) @ [CHR 0x0A])
           = [''{"id":"1"}'', JSON_stringify H new_doc, []]\<close>
    unfolding split_lines_snoc_newline
    using split_lines_append_newline [of \<open>''{"id":"1"}''\<close> "JSON_stringify H new_doc"] line
    by (simp add: split_lines_no_newline)
  then have two: \<open>split_lines (''{"id":"1"}'' @ [CHR 0x0A] @ JSON_stringify H new_doc @ [CHR 0x0A])
           = [''{"id":"1"}'', JSON_stringify H new_doc, []]\<close>
    by simp
  from run two show ?thesis by blast
qed

text \<open>
  C7. The scenario: a bucket whose remote content is the line \<open>{"id":"1"}\<close> followed by a
  newline and whose documents have the ids 1 and 2. The document 1 is skipped, the
  document 2 is written (\<open>skipped\<close> and \<open>synced\<close> each go up by one), and the body written
  is the old line and the new line, each ended by a newline. The rule: whenever
  \<open>sync_bucket\<close> has read the content \<open>existing\<close>, finds documents \<open>new\<close> whose ids the
  content does not hold, and the vault takes the write, the body it writes is \<open>existing\<close>,
  then one newline if and only if \<open>existing\<close> is not empty and does not end in a newline,
  then the new documents, each on its line and ended by a newline; \<open>skipped\<close> goes up
  by the number of documents held already, \<open>synced\<close> by the number of new ones.
  \<open>JSON.parse\<close> and \<open>JSON.stringify\<close> are the platform's: in the scenario the first reads
  the line as an object with \<open>id\<close> 1, the second writes the document on one line.
\<close>

theorem sync_bucket_scenario:
  \<open>(doc_id old_doc = ''1'' \<and> doc_id new_doc = ''2''
     \<and> get (bucket_path folder dateKey)
         = Inr \<lparr>status = 200, responseText = ''{"id":"1"}'' @ [CHR 0x0A]\<rparr>
     \<and> JSON_parse H ''{"id":"1"}'' = Some (JObject [(''id'', JString ''1'')])
     \<and> CHR 0x0A \<notin> set (JSON_stringify H new_doc)
     \<and> put (bucket_path folder dateKey)
          (''{"id":"1"}'' @ [CHR 0x0A] @ JSON_stringify H new_doc @ [CHR 0x0A]) = Inr response
     \<and> isOkStatus (status response)
    \<longrightarrow> sync_bucket H folder get put (dateKey, [old_doc, new_doc]) (summary, written)
           = (summary\<lparr>skipped := skipped summary + 1, synced := synced summary + 1,
                      files := files summary + 1\<rparr>,
              written @ [(bucket_path folder dateKey,
                          ''{"id":"1"}'' @ [CHR 0x0A] @ JSON_stringify H new_doc @ [CHR 0x0A])])
         \<and> split_lines (''{"id":"1"}'' @ [CHR 0x0A] @ JSON_stringify H new_doc @ [CHR 0x0A])
           = [''{"id":"1"}'', JSON_stringify H new_doc, []])
   \<and> (read_existing get' (bucket_path folder dateKey) = Inr existing
     \<and> new = filter (\<lambda>item. doc_id item \<notin> extractExistingIds (JSON_parse H) existing) items
     \<and> new \<noteq> []
     \<and> body = existing
              @ (if existing \<noteq> [] \<and> last existing \<noteq> CHR 0x0A then [CHR 0x0A] else [])
              @ join [CHR 0x0A] (map (JSON_stringify H) new) @ [CHR 0x0A]
     \<and> put' (bucket_path folder dateKey) body = Inr response'
     \<and> isOkStatus (status response')
    \<longrightarrow> sync_bucket H folder get' put' (dateKey, items) (summary, written)
           = (summary\<lparr>skipped := skipped summary + (length items - length new),
                      synced := synced summary + length new, files := files summary + 1\<rparr>,
              written @ [(bucket_path folder dateKey, body)]))\<close>
proof (intro conjI impI)
  assume a: \<open>doc_id old_doc = ''1'' \<and> doc_id new_doc = ''2''
     \<and> get (bucket_path folder dateKey)
         = Inr \<lparr>status = 200, responseText = ''{"id":"1"}'' @ [CHR 0x0A]\<rparr>
     \<and> JSON_parse H ''{"id":"1"}'' = Some (JObject [(''id'', JString ''1'')])
     \<and> CHR 0x0A \<notin> set (JSON_stringify H new_doc)
     \<and> put (bucket_path folder dateKey)
          (''{"id":"1"}'' @ [CHR 0x0A] @ JSON_stringify H new_doc @ [CHR 0x0A]) = Inr response
     \<and> isOkStatus (status response)\<close>
  note sample = sync_bucket_sample [where get = get and put = put and H = H and folder = folder
      and dateKey = dateKey and old_doc = old_doc and new_doc = new_doc and response = response
      and summary = summary and written = written]
  from a sample
  show \<open>sync_bucket H folder get put (dateKey, [old_doc, new_doc]) (summary, written)
           = (summary\<lparr>skipped := skipped summary + 1, synced := synced summary + 1,
                      files := files summary + 1\<rparr>,
              written @ [(bucket_path folder dateKey,
                          ''{"id":"1"}'' @ [CHR 0x0A] @ JSON_stringify H new_doc @ [CHR 0x0A])])\<close>
    by blast
  from a sample
  show \<open>split_lines (''{"id":"1"}'' @ [CHR 0x0A] @ JSON_stringify H new_doc @ [CHR 0x0A])
           = [''{"id":"1"}'', JSON_stringify H new_doc, []]\<close>
    by blast
next
  assume a: "read_existing get' (bucket_path folder dateKey) = Inr existing
     \<and> new = filter (\<lambda>item. doc_id item \<notin> extractExistingIds (JSON_parse H) existing) items
     \<and> new \<noteq> []
     \<and> body = existing
              @ (if existing \<noteq> [] \<and> last existing \<noteq> CHR 0x0A then [CHR 0x0A] else [])
              @ join [CHR 0x0A] (map (JSON_stringify H) new) @ [CHR 0x0A]
     \<and> put' (bucket_path folder dateKey) body = Inr response'
     \<and> isOkStatus (status response')"
  note rule = sync_bucket_writes [where get = get' and put = put' and H = H and folder = folder
      and dateKey = dateKey and existing = existing and new = new and items = items
      and body = body and response = response' and summary = summary and written = written]
  from a rule
  show "sync_bucket H folder get' put' (dateKey, items) (summary, written)
           = (summary\<lparr>skipped := skipped summary + (length items - length new),
                      synced := synced summary + length new, files := files summary + 1\<rparr>,
              written @ [(bucket_path folder dateKey, body)])"
    by blast
qed

lemma sample_docs:
  \<open>doc_id (doc_of ''1'') = ''1'' \<and> doc_id (doc_of ''2'') = ''2''
   \<and> JSON_parse sample_helpers ''{"id":"1"}'' = Some (JObject [(''id'', JString ''1'')])
   \<and> JSON_stringify sample_helpers (doc_of ''2'') = ''{"id":"2"}''
   \<and> CHR 0x0A \<notin> set (JSON_stringify sample_helpers (doc_of ''2''))
   \<and> isOkStatus (status \<lparr>status = 204, responseText = []\<rparr>)\<close>
  by code_simp

lemma sample_get:
  \<open>vault_get [(''Tweets/2023-09-28.jsonl'', ''{"id":"1"}'' @ [CHR 0x0A])]
      (bucket_path ''Tweets'' ''2023-09-28'')
    = Inr \<lparr>status = 200, responseText = ''{"id":"1"}'' @ [CHR 0x0A]\<rparr>\<close>
  by code_simp

lemma sample_read_unended:
  \<open>read_existing (vault_get [(''Tweets/2023-09-28.jsonl'', ''{"id":"1"}'')])
      (bucket_path ''Tweets'' ''2023-09-28'') = Inr ''{"id":"1"}''
   \<and> [doc_of ''2''] = filter (\<lambda>item. doc_id item
          \<notin> extractExistingIds (JSON_parse sample_helpers) ''{"id":"1"}'') [doc_of ''1'', doc_of ''2'']
   \<and> [doc_of ''2''] \<noteq> []
   \<and> ''{"id":"1"}'' @ [CHR 0x0A] @ ''{"id":"2"}'' @ [CHR 0x0A]
      = ''{"id":"1"}''
        @ (if ''{"id":"1"}'' \<noteq> [] \<and> last ''{"id":"1"}'' \<noteq> CHR 0x0A then [CHR 0x0A] else [])
        @ join [CHR 0x0A] (map (JSON_stringify sample_helpers) [doc_of ''2'']) @ [CHR 0x0A]\<close>
  by code_simp

lemma sample_read_missing:
  \<open>read_existing (vault_get []) (bucket_path ''Tweets'' ''2023-09-28'') = Inr []
   \<and> [doc_of ''1'', doc_of ''2''] = filter (\<lambda>item. doc_id item
          \<notin> extractExistingIds (JSON_parse sample_helpers) []) [doc_of ''1'', doc_of ''2'']
   \<and> [doc_of ''1'', doc_of ''2''] \<noteq> []
   \<and> ''{"id":"1"}'' @ [CHR 0x0A] @ ''{"id":"2"}'' @ [CHR 0x0A]
      = []
        @ (if [] \<noteq> [] \<and> last [] \<noteq> CHR 0x0A then [CHR 0x0A] else [])
        @ join [CHR 0x0A] (map (JSON_stringify sample_helpers) [doc_of ''1'', doc_of ''2'']) @ [CHR 0x0A]\<close>
  by code_simp

lemma sample_put:
  "vault_put path body = Inr \<lparr>status = 204, responseText = []\<rparr>"
  by (simp add: vault_put_def)

text \<open>
  The scenario with the sample helpers and vault; the same documents against a file
  that holds the line without a newline at its end, where one newline is put in
  between; and against a missing file, where the body starts with the first document.
\<close>

theorem sync_bucket_scenario_witness:
  \<open>sync_bucket sample_helpers ''Tweets''
      (vault_get [(''Tweets/2023-09-28.jsonl'', ''{"id":"1"}'' @ [CHR 0x0A])]) vault_put
      (''2023-09-28'', [doc_of ''1'', doc_of ''2'']) (zero_summary, [])
    = (\<lparr>total = 0, synced = 1, skipped = 1, files = 1, errors = []\<rparr>,
       [(''Tweets/2023-09-28.jsonl'', ''{"id":"1"}'' @ [CHR 0x0A] @ ''{"id":"2"}'' @ [CHR 0x0A])])
   \<and> split_lines (''{"id":"1"}'' @ [CHR 0x0A] @ ''{"id":"2"}'' @ [CHR 0x0A])
      = [''{"id":"1"}'', ''{"id":"2"}'', []]
   \<and> sync_bucket sample_helpers ''Tweets''
      (vault_get [(''Tweets/2023-09-28.jsonl'', ''{"id":"1"}'')]) vault_put
      (''2023-09-28'', [doc_of ''1'', doc_of ''2'']) (zero_summary, [])
    = (\<lparr>total = 0, synced = 1, skipped = 1, files = 1, errors = []\<rparr>,
       [(''Tweets/2023-09-28.jsonl'', ''{"id":"1"}'' @ [CHR 0x0A] @ ''{"id":"2"}'' @ [CHR 0x0A])])
   \<and> sync_bucket sample_helpers ''Tweets'' (vault_get []) vault_put
      (''2023-09-28'', [doc_of ''1'', doc_of ''2'']) (zero_summary, [])
    = (\<lparr>total = 0, synced = 2, skipped = 0, files = 1, errors = []\<rparr>,
       [(''Tweets/2023-09-28.jsonl'', ''{"id":"1"}'' @ [CHR 0x0A] @ ''{"id":"2"}'' @ [CHR 0x0A])])\<close>
proof -
  have str: \<open>JSON_stringify sample_helpers (doc_of ''2'') = ''{"id":"2"}''\<close>
    using sample_docs by blast
  have path: "bucket_path ''Tweets'' ''2023-09-28'' = ''Tweets/2023-09-28.jsonl''"
    by (simp add: bucket_path_def)
  note scenario = sync_bucket_scenario [where get = \<open>vault_get [(''Tweets/2023-09-28.jsonl'', ''{"id":"1"}'' @ [CHR 0x0A])]\<close>
      and put = vault_put and folder = "''Tweets''" and dateKey = "''2023-09-28''"
      and H = sample_helpers and summary = zero_summary and written = "[]"
      and old_doc = "doc_of ''1''" and new_doc = "doc_of ''2''"
      and response = "\<lparr>status = 204, responseText = []\<rparr>"]
  from scenario sample_docs sample_get sample_put
  have one: \<open>sync_bucket sample_helpers ''Tweets''
      (vault_get [(''Tweets/2023-09-28.jsonl'', ''{"id":"1"}'' @ [CHR 0x0A])]) vault_put
      (''2023-09-28'', [doc_of ''1'', doc_of ''2'']) (zero_summary, [])
    = (zero_summary\<lparr>skipped := skipped zero_summary + 1, synced := synced zero_summary + 1,
                      files := files zero_summary + 1\<rparr>,
       [] @ [(bucket_path ''Tweets'' ''2023-09-28'',
              ''{"id":"1"}'' @ [CHR 0x0A] @ JSON_stringify sample_helpers (doc_of ''2'') @ [CHR 0x0A])])
   \<and> split_lines (''{"id":"1"}'' @ [CHR 0x0A] @ JSON_stringify sample_helpers (doc_of ''2'') @ [CHR 0x0A])
      = [''{"id":"1"}'', JSON_stringify sample_helpers (doc_of ''2''), []]\<close>
    by blast
  note unended = sync_bucket_scenario [where get' = \<open>vault_get [(''Tweets/2023-09-28.jsonl'', ''{"id":"1"}'')]\<close>
      and put' = vault_put and folder = "''Tweets''" and dateKey = "''2023-09-28''"
      and H = sample_helpers and summary = zero_summary and written = "[]"
      and items = "[doc_of ''1'', doc_of ''2'']" and new = "[doc_of ''2'']"
      and existing = \<open>''{"id":"1"}''\<close>
      and body = \<open>''{"id":"1"}'' @ [CHR 0x0A] @ ''{"id":"2"}'' @ [CHR 0x0A]\<close>
      and response' = "\<lparr>status = 204, responseText = []\<rparr>"]
  from unended sample_read_unended sample_docs sample_put
  have two: \<open>sync_bucket sample_helpers ''Tweets''
      (vault_get [(''Tweets/2023-09-28.jsonl'', ''{"id":"1"}'')]) vault_put
      (''2023-09-28'', [doc_of ''1'', doc_of ''2'']) (zero_summary, [])
    = (zero_summary\<lparr>skipped := skipped zero_summary + (length [doc_of ''1'', doc_of ''2''] - length [doc_of ''2'']),
                      synced := synced zero_summary + length [doc_of ''2''],
                      files := files zero_summary + 1\<rparr>,
       [] @ [(bucket_path ''Tweets'' ''2023-09-28'',
              ''{"id":"1"}'' @ [CHR 0x0A] @ ''{"id":"2"}'' @ [CHR 0x0A])])\<close>
    by blast
  note missing = sync_bucket_scenario [where get' = \<open>vault_get []\<close>
      and put' = vault_put and folder = "''Tweets''" and dateKey = "''2023-09-28''"
      and H = sample_helpers and summary = zero_summary and written = "[]"
      and items = "[doc_of ''1'', doc_of ''2'']" and new = "[doc_of ''1'', doc_of ''2'']"
      and existing = "[]"
      and body = \<open>''{"id":"1"}'' @ [CHR 0x0A] @ ''{"id":"2"}'' @ [CHR 0x0A]\<close>
      and response' = "\<lparr>status = 204, responseText = []\<rparr>"]
  from missing sample_read_missing sample_docs sample_put
  have three: \<open>sync_bucket sample_helpers ''Tweets'' (vault_get []) vault_put
      (''2023-09-28'', [doc_of ''1'', doc_of ''2'']) (zero_summary, [])
    = (zero_summary\<lparr>skipped := skipped zero_summary + (length [doc_of ''1'', doc_of ''2''] - length [doc_of ''1'', doc_of ''2'']),
                      synced := synced zero_summary + length [doc_of ''1'', doc_of ''2''],
                      files := files zero_summary + 1\<rparr>,
       [] @ [(bucket_path ''Tweets'' ''2023-09-28'',
              ''{"id":"1"}'' @ [CHR 0x0A] @ ''{"id":"2"}'' @ [CHR 0x0A])])\<close>
    by blast
  from one two three show ?thesis
    unfolding str path by (simp add: zero_summary_def)
qed

section \<open>Reading a bucket file\<close>

lemma foldl_add_outcome:
  "foldl add_outcome st ds
     = (\<lparr>total = total (fst st) + sum_list (map (\<lambda>d. total (fst d)) ds),
         synced = synced (fst st) + sum_list (map (\<lambda>d. synced (fst d)) ds),
         skipped = skipped (fst st) + sum_list (map (\<lambda>d. skipped (fst d)) ds),
         files = files (fst st) + sum_list (map (\<lambda>d. files (fst d)) ds),
         errors = errors (fst st) @ concat (map (\<lambda>d. errors (fst d)) ds)\<rparr>,
        snd st @ concat (map snd ds))"
proof (induction ds arbitrary: st)
  case Nil
  show ?case by (cases st) simp
next
  case (Cons d ds)
  let ?sum = "\<lambda>st ds.
       (\<lparr>total = total (fst st) + sum_list (map (\<lambda>d. total (fst d)) ds),
         synced = synced (fst st) + sum_list (map (\<lambda>d. synced (fst d)) ds),
         skipped = skipped (fst st) + sum_list (map (\<lambda>d. skipped (fst d)) ds),
         files = files (fst st) + sum_list (map (\<lambda>d. files (fst d)) ds),
         errors = errors (fst st) @ concat (map (\<lambda>d. errors (fst d)) ds)\<rparr>,
        snd st @ concat (map snd ds))"
  have step: "?sum (add_outcome st d) ds = ?sum st (d # ds)"
    by (simp add: add_outcome_def add.assoc)
  have "foldl add_outcome st (d # ds) = foldl add_outcome (add_outcome st d) ds" by simp
  also have "\<dots> = ?sum (add_outcome st d) ds" by (rule Cons)
  also note step
  finally show ?case .
qed

lemma read_existing_not_found:
  "get path = Inr r \<Longrightarrow> status r = 404 \<Longrightarrow> read_existing get path = Inr []"
  by (simp add: read_existing_def)

lemma read_existing_ok:
  "get path = Inr r \<Longrightarrow> isOkStatus (status r) \<Longrightarrow> read_existing get path = Inr (responseText r)"
  by (auto simp: read_existing_def isOkStatus_def)

lemma read_existing_failed:
  "get path = Inr r \<Longrightarrow> status r \<noteq> 404 \<Longrightarrow> \<not> isOkStatus (status r) \<Longrightarrow>
   read_existing get path = Inl (''GET '' @ path @ '' failed ('' @ digits (status r) @ '')'')"
  by (simp add: read_existing_def)

lemma read_existing_rejected:
  "get path = Inl message \<Longrightarrow> read_existing get path = Inl message"
  by (simp add: read_existing_def)

lemma sync_bucket_read:
  "read_existing get (bucket_path folder dateKey) = read_existing get' (bucket_path folder dateKey) \<Longrightarrow>
   sync_bucket H folder get put (dateKey, items) st = sync_bucket H folder get' put (dateKey, items) st"
  by (cases st) (simp add: sync_bucket_def)

lemma sync_bucket_read_failed:
  "read_existing get (bucket_path folder dateKey) = Inl message \<Longrightarrow>
   sync_bucket H folder get put (dateKey, items) (summary, written)
     = (summary\<lparr>errors := errors summary @ [message]\<rparr>, written)"
  by (simp add: sync_bucket_def)

lemma bucket_outcome_read_failed:
  "read_existing get (bucket_path folder dateKey) = Inl message \<Longrightarrow>
   bucket_outcome H folder get put (dateKey, items) = (zero_summary\<lparr>errors := [message]\<rparr>, [])"
  by (simp add: bucket_outcome_def sync_bucket_read_failed zero_summary_def)

lemma newItems_of_empty: "newItems_of H [] items = items"
  by (simp add: newItems_of_def ids_empty)

lemma sync_buckets_skip_failed:
  assumes "read_existing get (bucket_path folder dateKey) = Inl message"
  shows "snd (sync_buckets H folder get put (before @ (dateKey, items) # after) st)
           = snd (sync_buckets H folder get put (before @ after) st)"
    and "synced (fst (sync_buckets H folder get put (before @ (dateKey, items) # after) st))
           = synced (fst (sync_buckets H folder get put (before @ after) st))"
    and "skipped (fst (sync_buckets H folder get put (before @ (dateKey, items) # after) st))
           = skipped (fst (sync_buckets H folder get put (before @ after) st))"
    and "files (fst (sync_buckets H folder get put (before @ (dateKey, items) # after) st))
           = files (fst (sync_buckets H folder get put (before @ after) st))"
    and "total (fst (sync_buckets H folder get put (before @ (dateKey, items) # after) st))
           = total (fst (sync_buckets H folder get put (before @ after) st))"
    and "mset (errors (fst (sync_buckets H folder get put (before @ (dateKey, items) # after) st)))
           = add_mset message (mset (errors (fst (sync_buckets H folder get put (before @ after) st))))"
  unfolding sync_buckets_frame foldl_add_outcome
  by (simp_all add: bucket_outcome_read_failed [OF assms] zero_summary_def)

text \<open>
  C8. Reading the existing file of a bucket. A 404 response gives empty existing content
  and the bucket is processed exactly as with a successful response whose body is empty:
  no identifier is present, every document is new, and the body written is the new lines
  alone. Any other response that is not a success gives the error
  \<open>GET path failed (status)\<close>. Whenever the read ends in an error (such a response, or a
  rejected request), the error is appended to the summary's errors and nothing else
  changes for that bucket; the buckets before and after it are processed as if the
  bucket were not there: same writes, same counts, one more error.
\<close>

theorem read_outcomes:
  "(get (bucket_path folder dateKey) = Inr r \<and> status r = 404
      \<and> get' (bucket_path folder dateKey) = Inr r' \<and> isOkStatus (status r') \<and> responseText r' = []
    \<longrightarrow> sync_bucket H folder get put (dateKey, items) st
          = sync_bucket H folder get' put (dateKey, items) st
        \<and> read_existing get (bucket_path folder dateKey) = Inr []
        \<and> extractExistingIds (JSON_parse H) [] = {}
        \<and> newItems_of H [] items = items
        \<and> combined_content [] (newLines_of H items) = newLines_of H items)
   \<and> (get (bucket_path folder dateKey) = Inr r \<and> status r \<noteq> 404 \<and> \<not> isOkStatus (status r)
    \<longrightarrow> read_existing get (bucket_path folder dateKey)
          = Inl (''GET '' @ bucket_path folder dateKey @ '' failed ('' @ digits (status r) @ '')''))
   \<and> (read_existing get (bucket_path folder dateKey) = Inl message
    \<longrightarrow> sync_bucket H folder get put (dateKey, items) (summary, written)
          = (summary\<lparr>errors := errors summary @ [message]\<rparr>, written)
        \<and> snd (sync_buckets H folder get put (before @ (dateKey, items) # after) st)
          = snd (sync_buckets H folder get put (before @ after) st)
        \<and> synced (fst (sync_buckets H folder get put (before @ (dateKey, items) # after) st))
          = synced (fst (sync_buckets H folder get put (before @ after) st))
        \<and> skipped (fst (sync_buckets H folder get put (before @ (dateKey, items) # after) st))
          = skipped (fst (sync_buckets H folder get put (before @ after) st))
        \<and> files (fst (sync_buckets H folder get put (before @ (dateKey, items) # after) st))
          = files (fst (sync_buckets H folder get put (before @ after) st))
        \<and> mset (errors (fst (sync_buckets H folder get put (before @ (dateKey, items) # after) st)))
          = add_mset message
              (mset (errors (fst (sync_buckets H folder get put (before @ after) st)))))"
proof (intro conjI impI)
  assume a: "get (bucket_path folder dateKey) = Inr r \<and> status r = 404
      \<and> get' (bucket_path folder dateKey) = Inr r' \<and> isOkStatus (status r') \<and> responseText r' = []"
  then have one: "read_existing get (bucket_path folder dateKey) = Inr []"
    by (simp add: read_existing_not_found)
  from a have "read_existing get' (bucket_path folder dateKey) = Inr (responseText r')"
    by (simp add: read_existing_ok)
  with a one have "read_existing get (bucket_path folder dateKey)
      = read_existing get' (bucket_path folder dateKey)" by simp
  then show "sync_bucket H folder get put (dateKey, items) st
          = sync_bucket H folder get' put (dateKey, items) st"
    by (rule sync_bucket_read)
  from one show "read_existing get (bucket_path folder dateKey) = Inr []" .
next
  show "extractExistingIds (JSON_parse H) [] = {}" by (rule ids_empty)
next
  show "newItems_of H [] items = items" by (rule newItems_of_empty)
next
  show "combined_content [] (newLines_of H items) = newLines_of H items"
    by (simp add: combined_content_def)
next
  assume "get (bucket_path folder dateKey) = Inr r \<and> status r \<noteq> 404 \<and> \<not> isOkStatus (status r)"
  then show "read_existing get (bucket_path folder dateKey)
          = Inl (''GET '' @ bucket_path folder dateKey @ '' failed ('' @ digits (status r) @ '')'')"
    by (simp add: read_existing_failed)
next
  assume f: "read_existing get (bucket_path folder dateKey) = Inl message"
  then show "sync_bucket H folder get put (dateKey, items) (summary, written)
          = (summary\<lparr>errors := errors summary @ [message]\<rparr>, written)"
    by (rule sync_bucket_read_failed)
  from f show "snd (sync_buckets H folder get put (before @ (dateKey, items) # after) st)
          = snd (sync_buckets H folder get put (before @ after) st)"
    by (rule sync_buckets_skip_failed)
  from f show "synced (fst (sync_buckets H folder get put (before @ (dateKey, items) # after) st))
          = synced (fst (sync_buckets H folder get put (before @ after) st))"
    by (rule sync_buckets_skip_failed)
  from f show "skipped (fst (sync_buckets H folder get put (before @ (dateKey, items) # after) st))
          = skipped (fst (sync_buckets H folder get put (before @ after) st))"
    by (rule sync_buckets_skip_failed)
  from f show "files (fst (sync_buckets H folder get put (before @ (dateKey, items) # after) st))
          = files (fst (sync_buckets H folder get put (before @ after) st))"
    by (rule sync_buckets_skip_failed)
  from f show "mset (errors (fst (sync_buckets H folder get put (before @ (dateKey, items) # after) st)))
          = add_mset message
              (mset (errors (fst (sync_buckets H folder get put (before @ after) st))))"
    by (rule sync_buckets_skip_failed)
qed

lemma failing_run_sample:
  \<open>sync_buckets sample_helpers ''Tweets'' (failing_get ''Tweets/2023-09-27.jsonl'' []) vault_put
      [(''2023-09-27'', [doc_of ''1'']), (''2023-09-28'', [doc_of ''2''])] (zero_summary, [])
    = (\<lparr>total = 0, synced = 1, skipped = 0, files = 1,
         errors = [''GET Tweets/2023-09-27.jsonl failed (500)'']\<rparr>,
       [(''Tweets/2023-09-28.jsonl'', ''{"id":"2"}'' @ [CHR 0x0A])])\<close>
  by code_simp

lemma not_found_run_sample:
  \<open>sync_bucket sample_helpers ''Tweets'' (vault_get []) vault_put
      (''2023-09-28'', [doc_of ''1'', doc_of ''2'']) (zero_summary, [])
    = (\<lparr>total = 0, synced = 2, skipped = 0, files = 1, errors = []\<rparr>,
       [(''Tweets/2023-09-28.jsonl'', ''{"id":"1"}'' @ [CHR 0x0A] @ ''{"id":"2"}'' @ [CHR 0x0A])])\<close>
  by code_simp

text \<open>
  A missing file against an empty file, and a run of two buckets in which the file of
  the first cannot be read (status 500) while the second is synced.
\<close>

theorem read_outcomes_witness:
  \<open>sync_bucket sample_helpers ''Tweets'' (vault_get []) vault_put
      (''2023-09-28'', [doc_of ''1'', doc_of ''2'']) (zero_summary, [])
    = sync_bucket sample_helpers ''Tweets'' (vault_get [(''Tweets/2023-09-28.jsonl'', [])]) vault_put
      (''2023-09-28'', [doc_of ''1'', doc_of ''2'']) (zero_summary, [])
   \<and> sync_bucket sample_helpers ''Tweets'' (vault_get []) vault_put
      (''2023-09-28'', [doc_of ''1'', doc_of ''2'']) (zero_summary, [])
    = (\<lparr>total = 0, synced = 2, skipped = 0, files = 1, errors = []\<rparr>,
       [(''Tweets/2023-09-28.jsonl'', ''{"id":"1"}'' @ [CHR 0x0A] @ ''{"id":"2"}'' @ [CHR 0x0A])])
   \<and> read_existing (failing_get ''Tweets/2023-09-27.jsonl'' []) (bucket_path ''Tweets'' ''2023-09-27'')
    = Inl ''GET Tweets/2023-09-27.jsonl failed (500)''
   \<and> sync_buckets sample_helpers ''Tweets'' (failing_get ''Tweets/2023-09-27.jsonl'' []) vault_put
      [(''2023-09-27'', [doc_of ''1'']), (''2023-09-28'', [doc_of ''2''])] (zero_summary, [])
    = (\<lparr>total = 0, synced = 1, skipped = 0, files = 1,
         errors = [''GET Tweets/2023-09-27.jsonl failed (500)'']\<rparr>,
       [(''Tweets/2023-09-28.jsonl'', ''{"id":"2"}'' @ [CHR 0x0A])])
   \<and> synced (fst (sync_buckets sample_helpers ''Tweets'' (failing_get ''Tweets/2023-09-27.jsonl'' []) vault_put
      ([] @ (''2023-09-27'', [doc_of ''1'']) # [(''2023-09-28'', [doc_of ''2''])]) (zero_summary, [])))
    = synced (fst (sync_buckets sample_helpers ''Tweets'' (failing_get ''Tweets/2023-09-27.jsonl'' []) vault_put
      ([] @ [(''2023-09-28'', [doc_of ''2''])]) (zero_summary, [])))\<close>
proof -
  have nf: "vault_get [] (bucket_path ''Tweets'' ''2023-09-28'') = Inr \<lparr>status = 404, responseText = []\<rparr>
      \<and> status \<lparr>status = 404, responseText = []\<rparr> = 404
      \<and> vault_get [(''Tweets/2023-09-28.jsonl'', [])] (bucket_path ''Tweets'' ''2023-09-28'')
          = Inr \<lparr>status = 200, responseText = []\<rparr>
      \<and> isOkStatus (status \<lparr>status = 200, responseText = []\<rparr>)
      \<and> responseText \<lparr>status = 200, responseText = []\<rparr> = []"
    by (simp add: vault_get_def bucket_path_def isOkStatus_def)
  have bad: "failing_get ''Tweets/2023-09-27.jsonl'' [] (bucket_path ''Tweets'' ''2023-09-27'')
        = Inr \<lparr>status = 500, responseText = []\<rparr>
      \<and> status \<lparr>status = 500, responseText = []\<rparr> \<noteq> 404
      \<and> \<not> isOkStatus (status \<lparr>status = 500, responseText = []\<rparr>)"
    by (simp add: failing_get_def bucket_path_def isOkStatus_def)
  have d500: "digits 500 = ''500''" by code_simp
  note inst1 = read_outcomes [where get = "vault_get []" and folder = "''Tweets''"
      and dateKey = "''2023-09-28''" and r = "\<lparr>status = 404, responseText = []\<rparr>"
      and get' = "vault_get [(''Tweets/2023-09-28.jsonl'', [])]"
      and r' = "\<lparr>status = 200, responseText = []\<rparr>" and H = sample_helpers and put = vault_put
      and items = "[doc_of ''1'', doc_of ''2'']" and st = "(zero_summary, [])"]
  from inst1 nf have one: "sync_bucket sample_helpers ''Tweets'' (vault_get []) vault_put
      (''2023-09-28'', [doc_of ''1'', doc_of ''2'']) (zero_summary, [])
    = sync_bucket sample_helpers ''Tweets'' (vault_get [(''Tweets/2023-09-28.jsonl'', [])]) vault_put
      (''2023-09-28'', [doc_of ''1'', doc_of ''2'']) (zero_summary, [])"
    by blast
  note inst2 = read_outcomes [where get = "failing_get ''Tweets/2023-09-27.jsonl'' []"
      and folder = "''Tweets''" and dateKey = "''2023-09-27''"
      and r = "\<lparr>status = 500, responseText = []\<rparr>" and H = sample_helpers and put = vault_put
      and items = "[doc_of ''1'']" and st = "(zero_summary, [])" and before = "[]"
      and after = "[(''2023-09-28'', [doc_of ''2''])]"
      and message = "''GET Tweets/2023-09-27.jsonl failed (500)''"]
  from inst2 bad have "read_existing (failing_get ''Tweets/2023-09-27.jsonl'' []) (bucket_path ''Tweets'' ''2023-09-27'')
    = Inl (''GET '' @ bucket_path ''Tweets'' ''2023-09-27'' @ '' failed (''
             @ digits (status \<lparr>status = 500, responseText = []\<rparr>) @ '')'')"
    by blast
  then have two: "read_existing (failing_get ''Tweets/2023-09-27.jsonl'' []) (bucket_path ''Tweets'' ''2023-09-27'')
    = Inl ''GET Tweets/2023-09-27.jsonl failed (500)''"
    by (simp add: bucket_path_def d500)
  from inst2 two have three: "synced (fst (sync_buckets sample_helpers ''Tweets'' (failing_get ''Tweets/2023-09-27.jsonl'' []) vault_put
      ([] @ (''2023-09-27'', [doc_of ''1'']) # [(''2023-09-28'', [doc_of ''2''])]) (zero_summary, [])))
    = synced (fst (sync_buckets sample_helpers ''Tweets'' (failing_get ''Tweets/2023-09-27.jsonl'' []) vault_put
      ([] @ [(''2023-09-28'', [doc_of ''2''])]) (zero_summary, [])))"
    by blast
  from one two three not_found_run_sample failing_run_sample show ?thesis by blast
qed

section \<open>Deduplication by identifier\<close>

lemma line_id_Some:
  "line_id parse line = Some i \<longleftrightarrow>
     (\<exists>v parsed. String_js v = Some i \<and> trim line \<noteq> [] \<and> parse (trim line) = Some parsed
        \<and> parsed_id parsed = Some v \<and> v \<noteq> JNull)"
  by (auto simp: line_id_def split: option.splits)

text \<open>
  C10. The identifiers \<open>extractExistingIds\<close> finds in a bucket file are exactly the
  \<open>String(id)\<close> of the lines that, trimmed, are not empty, parse, and have an \<open>id\<close> that
  is neither undefined nor null (and that \<open>String\<close> converts without throwing, as it
  does every string and every number). \<open>String\<close> of a string is the string and \<open>String\<close>
  of a number is the number's text, so the \<open>id\<close> counts whether it is a JSON string or a
  JSON number: a document whose \<open>id\<close> is the \<open>String\<close> of the \<open>id\<close> of such a line is
  kept out of the new items; in particular a line whose \<open>id\<close> is the number 1 keeps out the
  document with the \<open>id\<close> "1". A file whose lines are all blank or do not parse holds no
  identifier. \<open>JSON.parse\<close> is the platform's.
\<close>

theorem existing_ids:
  "extractExistingIds parse content
     = {shown | shown v line parsed.
          line \<in> set (split_lines content) \<and> trim line \<noteq> [] \<and> parse (trim line) = Some parsed
          \<and> parsed_id parsed = Some v \<and> v \<noteq> JNull \<and> String_js v = Some shown}
   \<and> String_js (JString s) = Some s
   \<and> String_js (JNumber digits_of_number) = Some digits_of_number
   \<and> (line \<in> set (split_lines content) \<and> trim line \<noteq> []
        \<and> JSON_parse H (trim line) = Some parsed \<and> parsed_id parsed = Some v \<and> v \<noteq> JNull
        \<and> String_js v = Some (doc_id item)
      \<longrightarrow> item \<notin> set (newItems_of H content items))
   \<and> (line' \<in> set (split_lines content) \<and> trim line' \<noteq> []
        \<and> JSON_parse H (trim line') = Some parsed' \<and> parsed_id parsed' = Some (JNumber ''1'')
        \<and> doc_id item' = ''1''
      \<longrightarrow> item' \<notin> set (newItems_of H content items))
   \<and> ((\<forall>line \<in> set (split_lines content). trim line = [] \<or> parse (trim line) = None)
      \<longrightarrow> extractExistingIds parse content = {})"
proof (intro conjI impI)
  show "extractExistingIds parse content
     = {shown | shown v line parsed.
          line \<in> set (split_lines content) \<and> trim line \<noteq> [] \<and> parse (trim line) = Some parsed
          \<and> parsed_id parsed = Some v \<and> v \<noteq> JNull \<and> String_js v = Some shown}"
    unfolding extractExistingIds_lines by (auto simp: line_id_Some)
next
  show "String_js (JString s) = Some s" by simp
next
  show "String_js (JNumber digits_of_number) = Some digits_of_number" by simp
next
  assume a: "line \<in> set (split_lines content) \<and> trim line \<noteq> []
        \<and> JSON_parse H (trim line) = Some parsed \<and> parsed_id parsed = Some v \<and> v \<noteq> JNull
        \<and> String_js v = Some (doc_id item)"
  then have "line_id (JSON_parse H) line = Some (doc_id item)"
    by (simp add: line_id_def)
  with a have "doc_id item \<in> extractExistingIds (JSON_parse H) content"
    unfolding extractExistingIds_lines by auto
  then show "item \<notin> set (newItems_of H content items)"
    by (simp add: newItems_of_def)
next
  assume a: "line' \<in> set (split_lines content) \<and> trim line' \<noteq> []
        \<and> JSON_parse H (trim line') = Some parsed' \<and> parsed_id parsed' = Some (JNumber ''1'')
        \<and> doc_id item' = ''1''"
  then have "line_id (JSON_parse H) line' = Some ''1''"
    by (simp add: line_id_def)
  with a have "doc_id item' \<in> extractExistingIds (JSON_parse H) content"
    unfolding extractExistingIds_lines by auto
  then show "item' \<notin> set (newItems_of H content items)"
    by (simp add: newItems_of_def)
next
  assume "\<forall>line \<in> set (split_lines content). trim line = [] \<or> parse (trim line) = None"
  then have "\<forall>line \<in> set (split_lines content). line_id parse line = None"
    by (auto simp: line_id_def)
  then show "extractExistingIds parse content = {}"
    unfolding extractExistingIds_lines by simp
qed

lemma numbered_content_lines: \<open>split_lines numbered_content = [''{"id":1}'', ''no json'', ''   '']\<close>
  by code_simp

lemma numbered_content_ids: "extractExistingIds flat_parse numbered_content = {''1''}"
  by code_simp

lemma numbered_content_new:
  "newItems_of sample_helpers numbered_content [doc_of ''1'', doc_of ''2''] = [doc_of ''2'']"
  by code_simp

lemma padded_content_ids: "extractExistingIds flat_parse padded_content = {''7''}"
  by code_simp

lemma unreadable_content_lines:
  "\<forall>line \<in> set (split_lines unreadable_content). trim line = [] \<or> flat_parse (trim line) = None"
  by code_simp

lemma numbered_line:
  \<open>''{"id":1}'' \<in> set (split_lines numbered_content) \<and> trim ''{"id":1}'' \<noteq> []
    \<and> JSON_parse sample_helpers (trim ''{"id":1}'') = Some (JObject [(''id'', JNumber ''1'')])
    \<and> parsed_id (JObject [(''id'', JNumber ''1'')]) = Some (JNumber ''1'')
    \<and> JNumber ''1'' \<noteq> JNull
    \<and> String_js (JNumber ''1'') = Some (doc_id (doc_of ''1''))
    \<and> doc_id (doc_of ''1'') = ''1''\<close>
  by code_simp

lemma padded_line:
  \<open>padded_content \<in> set (split_lines padded_content) \<and> trim padded_content \<noteq> []
    \<and> JSON_parse sample_helpers (trim padded_content) = Some (JObject [(''id'', JString ''7'')])
    \<and> parsed_id (JObject [(''id'', JString ''7'')]) = Some (JString ''7'')
    \<and> JString ''7'' \<noteq> JNull
    \<and> String_js (JString ''7'') = Some (doc_id (doc_of ''7''))\<close>
  by code_simp

text \<open>
  The number 1 in the file keeps the document "1" out; a line between no-break spaces
  counts with its \<open>id\<close>; the unreadable file holds no identifier.
\<close>

theorem existing_ids_witness:
  "doc_of ''1'' \<notin> set (newItems_of sample_helpers numbered_content [doc_of ''1'', doc_of ''2''])
   \<and> newItems_of sample_helpers numbered_content [doc_of ''1'', doc_of ''2''] = [doc_of ''2'']
   \<and> extractExistingIds flat_parse numbered_content = {''1''}
   \<and> doc_of ''7'' \<notin> set (newItems_of sample_helpers padded_content [doc_of ''7''])
   \<and> extractExistingIds flat_parse padded_content = {''7''}
   \<and> extractExistingIds flat_parse unreadable_content = {}"
proof -
  note number = existing_ids [where line' = \<open>''{"id":1}''\<close> and content = numbered_content
      and H = sample_helpers and parsed' = "JObject [(''id'', JNumber ''1'')]" and item' = "doc_of ''1''"
      and items = "[doc_of ''1'', doc_of ''2'']"]
  with numbered_line
  have one: "doc_of ''1'' \<notin> set (newItems_of sample_helpers numbered_content [doc_of ''1'', doc_of ''2''])"
    by blast
  note padded = existing_ids [where line = padded_content and content = padded_content
      and H = sample_helpers and parsed = "JObject [(''id'', JString ''7'')]" and v = "JString ''7''"
      and item = "doc_of ''7''" and items = "[doc_of ''7'']"]
  with padded_line
  have seven: "doc_of ''7'' \<notin> set (newItems_of sample_helpers padded_content [doc_of ''7''])"
    by blast
  from existing_ids [where parse = flat_parse and content = unreadable_content]
    unreadable_content_lines
  have two: "extractExistingIds flat_parse unreadable_content = {}"
    by blast
  from one seven two numbered_content_new numbered_content_ids padded_content_ids
  show ?thesis by blast
qed

section \<open>Running the sync twice\<close>

lemma bucket_outcome_cases:
  "bucket_outcome H folder get put (k, items) =
     (case read_existing get (bucket_path folder k) of
        Inl m \<Rightarrow> (zero_summary\<lparr>errors := [m]\<rparr>, [])
      | Inr e \<Rightarrow>
          if newItems_of H e items = []
          then (zero_summary\<lparr>skipped := length items\<rparr>, [])
          else (case write_combined put (bucket_path folder k)
                       (combined_content e (newLines_of H (newItems_of H e items))) of
                  Inl m \<Rightarrow> (zero_summary\<lparr>skipped := length items - length (newItems_of H e items),
                                          errors := [m]\<rparr>, [])
                | Inr u \<Rightarrow> (zero_summary\<lparr>skipped := length items - length (newItems_of H e items),
                                          synced := length (newItems_of H e items), files := 1\<rparr>,
                            [(bucket_path folder k,
                              combined_content e (newLines_of H (newItems_of H e items)))])))"
  by (simp add: bucket_outcome_def sync_bucket_def zero_summary_def Let_def split: sum.splits)

lemma total_bucket_outcome: "total (fst (bucket_outcome H folder get put b)) = 0"
  by (cases b) (simp add: bucket_outcome_cases zero_summary_def split: sum.splits)

lemma json_roundtrip_filter: "json_roundtrip H items \<Longrightarrow> json_roundtrip H (filter P items)"
  by (simp add: json_roundtrip_def list_all_iff)

lemma length_newItems: "length (newItems_of H e items) \<le> length items"
  by (simp add: newItems_of_def)

lemma newItems_after_write:
  assumes "json_roundtrip H items"
  shows "newItems_of H (combined_content e (newLines_of H (newItems_of H e items))) items = []"
proof -
  let ?new = "newItems_of H e items"
  have "json_roundtrip H ?new" unfolding newItems_of_def by (rule json_roundtrip_filter [OF assms])
  then have ids: "extractExistingIds (JSON_parse H) (combined_content e (newLines_of H ?new))
      = extractExistingIds (JSON_parse H) e \<union> doc_id ` set ?new"
    by (simp add: ids_combined_content ids_newLines)
  have "doc_id item \<in> extractExistingIds (JSON_parse H) e \<union> doc_id ` set ?new"
    if "item \<in> set items" for item
    using that by (cases "doc_id item \<in> extractExistingIds (JSON_parse H) e")
      (auto simp: newItems_of_def)
  then show ?thesis
    unfolding newItems_of_def [of H "combined_content e (newLines_of H ?new)"] ids
    by (simp add: filter_empty_conv)
qed

lemma second_run_bucket:
  assumes rt: "json_roundtrip H items"
    and ok: "errors (fst (bucket_outcome H folder get1 put1 (k, items))) = []"
    and seen: "reads_back H folder get1 put1 get2 (k, items)"
  shows "bucket_outcome H folder get2 put2 (k, items) = (zero_summary\<lparr>skipped := length items\<rparr>, [])"
    and "synced (fst (bucket_outcome H folder get1 put1 (k, items)))
         + skipped (fst (bucket_outcome H folder get1 put1 (k, items))) = length items"
proof -
  let ?path = "bucket_path folder k"
  from ok obtain e where e: "read_existing get1 ?path = Inr e"
    by (cases "read_existing get1 ?path") (auto simp: bucket_outcome_cases zero_summary_def)
  let ?new = "newItems_of H e items"
  show "bucket_outcome H folder get2 put2 (k, items) = (zero_summary\<lparr>skipped := length items\<rparr>, [])"
  proof (cases "?new = []")
    case True
    with e have "snd (bucket_outcome H folder get1 put1 (k, items)) = []"
      by (simp add: bucket_outcome_cases)
    with seen e have "read_existing get2 ?path = Inr e" by (simp add: reads_back_def)
    with True show ?thesis by (simp add: bucket_outcome_cases)
  next
    case False
    let ?combined = "combined_content e (newLines_of H ?new)"
    from ok e False have w: "write_combined put1 ?path ?combined = Inr ()"
      by (cases "write_combined put1 ?path ?combined")
         (auto simp: bucket_outcome_cases zero_summary_def)
    with e False have "snd (bucket_outcome H folder get1 put1 (k, items)) = [(?path, ?combined)]"
      by (simp add: bucket_outcome_cases)
    with seen have "read_existing get2 ?path = Inr ?combined" by (simp add: reads_back_def)
    with newItems_after_write [OF rt, of e] show ?thesis by (simp add: bucket_outcome_cases)
  qed
  show "synced (fst (bucket_outcome H folder get1 put1 (k, items)))
         + skipped (fst (bucket_outcome H folder get1 put1 (k, items))) = length items"
  proof (cases "?new = []")
    case True
    with e show ?thesis by (simp add: bucket_outcome_cases zero_summary_def)
  next
    case False
    let ?combined = "combined_content e (newLines_of H ?new)"
    from ok e False have w: "write_combined put1 ?path ?combined = Inr ()"
      by (cases "write_combined put1 ?path ?combined")
         (auto simp: bucket_outcome_cases zero_summary_def)
    with e False length_newItems [of H e items] show ?thesis
      by (simp add: bucket_outcome_cases zero_summary_def)
  qed
qed

lemma second_run_buckets:
  assumes rt: "json_roundtrip H (concat (map snd buckets))"
    and ok: "\<forall>b \<in> set buckets. errors (fst (bucket_outcome H folder get1 put1 b)) = []"
    and seen: "list_all (reads_back H folder get1 put1 get2) buckets"
  shows "map (bucket_outcome H folder get2 put2) buckets
           = map (\<lambda>b. (zero_summary\<lparr>skipped := length (snd b)\<rparr>, [])) buckets
       \<and> sum_list (map (\<lambda>b. synced (fst (bucket_outcome H folder get1 put1 b))) buckets)
         + sum_list (map (\<lambda>b. skipped (fst (bucket_outcome H folder get1 put1 b))) buckets)
         = sum_list (map (\<lambda>b. length (snd b)) buckets)"
  using assms
proof (induction buckets)
  case Nil
  show ?case by simp
next
  case (Cons b bs)
  obtain k items where b: "b = (k, items)" by (cases b)
  from Cons.prems(1) b have rt1: "json_roundtrip H items" and rts: "json_roundtrip H (concat (map snd bs))"
    by (simp_all add: json_roundtrip_def)
  from Cons.prems(2) b have ok1: "errors (fst (bucket_outcome H folder get1 put1 (k, items))) = []"
    and oks: "\<forall>b \<in> set bs. errors (fst (bucket_outcome H folder get1 put1 b)) = []"
    by simp_all
  from Cons.prems(3) b have seen1: "reads_back H folder get1 put1 get2 (k, items)"
    and seens: "list_all (reads_back H folder get1 put1 get2) bs"
    by simp_all
  note one = second_run_bucket [OF rt1 ok1 seen1]
  from one(1) [of put2] one(2) Cons.IH [OF rts oks seens] b show ?case by simp
qed

lemma length_bucket_push:
  "sum_list (map (\<lambda>b. length (snd b)) (bucket_push k d buckets))
     = Suc (sum_list (map (\<lambda>b. length (snd b)) buckets))"
  by (induction buckets) auto

lemma length_build_buckets:
  "build_buckets H buckets tweets = Some buckets' \<Longrightarrow>
   sum_list (map (\<lambda>b. length (snd b)) buckets')
     = sum_list (map (\<lambda>b. length (snd b)) buckets) + length tweets"
proof (induction tweets arbitrary: buckets)
  case Nil
  then show ?case by simp
next
  case (Cons t ts)
  from Cons.prems obtain l doc where l: "legacy t = Some l" and doc: "toObsidianTweet H t = Some doc"
    and rest: "build_buckets H (bucket_push (dateKey_of H l) doc buckets) ts = Some buckets'"
    by (auto split: option.splits)
  from Cons.IH [OF rest] show ?case by (simp add: length_bucket_push)
qed

lemma sync_result:
  assumes "build_buckets H [] (extGetCapturedTweets cmp db ''HomeTimelineModule'') = Some buckets"
  shows "syncHomeTimelineToObsidian H cmp get put db folder_arg
           = Inr (foldl add_outcome
                    (zero_summary\<lparr>total := length (extGetCapturedTweets cmp db ''HomeTimelineModule'')\<rparr>, [])
                    (map (bucket_outcome H (folder_of folder_arg) get put) buckets))"
proof (cases "extGetCapturedTweets cmp db ''HomeTimelineModule'' = []")
  case True
  with assms have "buckets = []" by simp
  with True show ?thesis
    by (simp add: syncHomeTimelineToObsidian_def zero_summary_def)
next
  case False
  with assms show ?thesis
    by (simp add: syncHomeTimelineToObsidian_def Let_def sync_buckets_frame zero_summary_def
          folder_of_def)
qed

lemma untouched_first_run:
  assumes "\<not> touched folder get (k, items)"
  shows "synced (fst (bucket_outcome H folder get put (k, items))) = 0"
    and "skipped (fst (bucket_outcome H folder get put (k, items))) = 0"
  using assms
  by (auto simp: touched_def bucket_outcome_cases zero_summary_def split: sum.splits)

lemma touched_second_run:
  assumes rt: "json_roundtrip H items"
    and t: "touched folder get1 (k, items)"
    and w: "writes_succeeded H folder get1 put1 (k, items)"
    and seen: "reads_back H folder get1 put1 get2 (k, items)"
  shows "bucket_outcome H folder get2 put2 (k, items)
           = (zero_summary\<lparr>skipped := synced (fst (bucket_outcome H folder get1 put1 (k, items)))
                                      + skipped (fst (bucket_outcome H folder get1 put1 (k, items)))\<rparr>, [])"
proof -
  from t w have ok: "errors (fst (bucket_outcome H folder get1 put1 (k, items))) = []"
    by (simp add: writes_succeeded_def)
  note one = second_run_bucket [OF rt ok seen]
  from one(1) [of put2] one(2) show ?thesis by simp
qed

lemma touched_second_run_all:
  assumes rt: "json_roundtrip H (concat (map snd buckets))"
    and w: "list_all (writes_succeeded H folder get1 put1) buckets"
    and seen: "\<forall>bucket \<in> set buckets. touched folder get1 bucket
                 \<longrightarrow> reads_back H folder get1 put1 get2 bucket"
  shows "\<forall>bucket \<in> set buckets. touched folder get1 bucket \<longrightarrow>
           bucket_outcome H folder get2 put2 bucket
             = (zero_summary\<lparr>skipped := synced (fst (bucket_outcome H folder get1 put1 bucket))
                                        + skipped (fst (bucket_outcome H folder get1 put1 bucket))\<rparr>, [])"
proof (intro ballI impI)
  fix bucket
  assume b: "bucket \<in> set buckets" and t: "touched folder get1 bucket"
  obtain k items where ki: "bucket = (k, items)" by (cases bucket)
  from rt b ki have rt1: "json_roundtrip H items"
    by (auto simp: json_roundtrip_def list_all_iff)
  from w b have w1: "writes_succeeded H folder get1 put1 bucket" by (simp add: list_all_iff)
  from seen b t have s1: "reads_back H folder get1 put1 get2 bucket" by blast
  from touched_second_run [OF rt1 t [unfolded ki] w1 [unfolded ki] s1 [unfolded ki], of put2]
  show "bucket_outcome H folder get2 put2 bucket
             = (zero_summary\<lparr>skipped := synced (fst (bucket_outcome H folder get1 put1 bucket))
                                        + skipped (fst (bucket_outcome H folder get1 put1 bucket))\<rparr>, [])"
    unfolding ki .
qed

lemma sum_list_outside:
  fixes f :: "'x \<Rightarrow> nat"
  assumes "\<forall>b \<in> set bs. P b \<longrightarrow> f b = 0"
  shows "sum_list (map f bs) = sum_list (map f (filter (\<lambda>b. \<not> P b) bs))"
  using assms by (induction bs) auto

lemma concat_outside:
  assumes "\<forall>b \<in> set bs. P b \<longrightarrow> g b = []"
  shows "concat (map g bs) = concat (map g (filter (\<lambda>b. \<not> P b) bs))"
  using assms by (induction bs) auto

lemma sum_list_inside_outside:
  fixes f :: "'x \<Rightarrow> nat"
  assumes "\<forall>b \<in> set bs. P b \<longrightarrow> f b = a b + c b"
    and "\<forall>b \<in> set bs. \<not> P b \<longrightarrow> a b = 0 \<and> c b = 0"
  shows "sum_list (map f bs)
           = sum_list (map a bs) + sum_list (map c bs) + sum_list (map f (filter (\<lambda>b. \<not> P b) bs))"
  using assms by (induction bs) auto

text \<open>
  C5 (amended). Let the second run start from the same database as the first, let all
  writes of the first run have succeeded, and let the second run find the file of every
  bucket the first run touched as the first run left it. Then for every bucket touched
  the first time the second run syncs nothing, writes nothing and records no error, and
  it skips as many documents of the bucket as the first run synced and skipped there
  together. So the \<open>skipped\<close> of the second summary is the \<open>synced\<close> plus the \<open>skipped\<close> of
  the first, plus what the second run skips in the buckets the first run could not read;
  its \<open>synced\<close>, \<open>files\<close> and writes come from those buckets alone. When the first run
  touched every bucket, the second summary has \<open>synced\<close> 0, \<open>files\<close> 0, no error, and
  its \<open>skipped\<close> is the \<open>synced\<close> plus the \<open>skipped\<close> of the first, which is the total.
  \<open>JSON.stringify\<close> and \<open>JSON.parse\<close> are the platform's: a document is written on one
  line and the line reads back as the document's \<open>id\<close>.
\<close>

theorem second_sync_skips_all:
  assumes buckets: "build_buckets H [] (extGetCapturedTweets cmp db ''HomeTimelineModule'') = Some buckets"
    and rt: "json_roundtrip H (concat (map snd buckets))"
    and first: "syncHomeTimelineToObsidian H cmp get1 put1 db folder_arg = Inr (summary1, written1)"
    and writes: "list_all (writes_succeeded H (folder_of folder_arg) get1 put1) buckets"
    and seen: "\<forall>bucket \<in> set buckets. touched (folder_of folder_arg) get1 bucket
                 \<longrightarrow> reads_back H (folder_of folder_arg) get1 put1 get2 bucket"
  shows "\<exists>summary2 written2.
           syncHomeTimelineToObsidian H cmp get2 put2 db folder_arg = Inr (summary2, written2)
           \<and> total summary2 = total summary1
           \<and> (\<forall>bucket \<in> set buckets. touched (folder_of folder_arg) get1 bucket \<longrightarrow>
                bucket_outcome H (folder_of folder_arg) get2 put2 bucket
                  = (zero_summary\<lparr>skipped :=
                       synced (fst (bucket_outcome H (folder_of folder_arg) get1 put1 bucket))
                       + skipped (fst (bucket_outcome H (folder_of folder_arg) get1 put1 bucket))\<rparr>, []))
           \<and> skipped summary2
               = synced summary1 + skipped summary1
                 + sum_list (map (\<lambda>b. skipped (fst (bucket_outcome H (folder_of folder_arg) get2 put2 b)))
                     (filter (\<lambda>b. \<not> touched (folder_of folder_arg) get1 b) buckets))
           \<and> synced summary2
               = sum_list (map (\<lambda>b. synced (fst (bucket_outcome H (folder_of folder_arg) get2 put2 b)))
                   (filter (\<lambda>b. \<not> touched (folder_of folder_arg) get1 b) buckets))
           \<and> files summary2
               = sum_list (map (\<lambda>b. files (fst (bucket_outcome H (folder_of folder_arg) get2 put2 b)))
                   (filter (\<lambda>b. \<not> touched (folder_of folder_arg) get1 b) buckets))
           \<and> written2
               = concat (map (\<lambda>b. snd (bucket_outcome H (folder_of folder_arg) get2 put2 b))
                   (filter (\<lambda>b. \<not> touched (folder_of folder_arg) get1 b) buckets))
           \<and> (list_all (touched (folder_of folder_arg) get1) buckets \<longrightarrow>
                synced summary2 = 0 \<and> files summary2 = 0 \<and> written2 = [] \<and> errors summary2 = []
                \<and> skipped summary2 = synced summary1 + skipped summary1
                \<and> skipped summary2 = total summary2)"
proof -
  let ?tweets = "extGetCapturedTweets cmp db ''HomeTimelineModule''"
  let ?f = "folder_of folder_arg"
  let ?start = "(zero_summary\<lparr>total := length ?tweets\<rparr>, [])"
  let ?out1 = "bucket_outcome H ?f get1 put1"
  let ?out2 = "bucket_outcome H ?f get2 put2"
  let ?T = "touched ?f get1"
  let ?rest = "filter (\<lambda>b. \<not> ?T b) buckets"
  define run2 where "run2 = foldl add_outcome ?start (map ?out2 buckets)"
  from first sync_result [OF buckets, of get1 put1 folder_arg]
  have "(summary1, written1) = foldl add_outcome ?start (map ?out1 buckets)"
    by simp
  then have s1: "summary1 = fst (foldl add_outcome ?start (map ?out1 buckets))"
    by (metis fst_conv)
  have y1: "synced summary1 = sum_list (map (\<lambda>b. synced (fst (?out1 b))) buckets)"
    and k1: "skipped summary1 = sum_list (map (\<lambda>b. skipped (fst (?out1 b))) buckets)"
    and t1: "total summary1 = length ?tweets"
    unfolding s1 foldl_add_outcome by (simp_all add: zero_summary_def comp_def total_bucket_outcome)
  have second: "syncHomeTimelineToObsidian H cmp get2 put2 db folder_arg = Inr (fst run2, snd run2)"
    unfolding run2_def by (simp add: sync_result [OF buckets])
  have t2: "total (fst run2) = length ?tweets"
    and y2: "synced (fst run2) = sum_list (map (\<lambda>b. synced (fst (?out2 b))) buckets)"
    and k2: "skipped (fst run2) = sum_list (map (\<lambda>b. skipped (fst (?out2 b))) buckets)"
    and f2: "files (fst run2) = sum_list (map (\<lambda>b. files (fst (?out2 b))) buckets)"
    and e2: "errors (fst run2) = concat (map (\<lambda>b. errors (fst (?out2 b))) buckets)"
    and w2: "snd run2 = concat (map (\<lambda>b. snd (?out2 b)) buckets)"
    unfolding run2_def foldl_add_outcome
    by (simp_all add: zero_summary_def comp_def total_bucket_outcome)
  note per = touched_second_run_all [OF rt writes seen, of put2]
  have zero: "\<forall>b \<in> set buckets. ?T b \<longrightarrow> synced (fst (?out2 b)) = 0"
    "\<forall>b \<in> set buckets. ?T b \<longrightarrow> files (fst (?out2 b)) = 0"
    "\<forall>b \<in> set buckets. ?T b \<longrightarrow> errors (fst (?out2 b)) = []"
    "\<forall>b \<in> set buckets. ?T b \<longrightarrow> snd (?out2 b) = []"
    "\<forall>b \<in> set buckets. ?T b \<longrightarrow>
       skipped (fst (?out2 b)) = synced (fst (?out1 b)) + skipped (fst (?out1 b))"
    using per by (simp_all add: zero_summary_def)
  have none: "\<forall>b \<in> set buckets. \<not> ?T b \<longrightarrow> synced (fst (?out1 b)) = 0 \<and> skipped (fst (?out1 b)) = 0"
  proof (intro ballI impI)
    fix b assume "b \<in> set buckets" and n: "\<not> ?T b"
    obtain k items where "b = (k, items)" by (cases b)
    with n untouched_first_run [of ?f get1 k items H put1]
    show "synced (fst (?out1 b)) = 0 \<and> skipped (fst (?out1 b)) = 0" by simp
  qed
  have ys: "synced (fst run2) = sum_list (map (\<lambda>b. synced (fst (?out2 b))) ?rest)"
    unfolding y2 by (rule sum_list_outside [OF zero(1)])
  have fs: "files (fst run2) = sum_list (map (\<lambda>b. files (fst (?out2 b))) ?rest)"
    unfolding f2 by (rule sum_list_outside [OF zero(2)])
  have es: "errors (fst run2) = concat (map (\<lambda>b. errors (fst (?out2 b))) ?rest)"
    unfolding e2 by (rule concat_outside [OF zero(3)])
  have ws: "snd run2 = concat (map (\<lambda>b. snd (?out2 b)) ?rest)"
    unfolding w2 by (rule concat_outside [OF zero(4)])
  have ks: "skipped (fst run2) = synced summary1 + skipped summary1
      + sum_list (map (\<lambda>b. skipped (fst (?out2 b))) ?rest)"
    unfolding k2 y1 k1 by (rule sum_list_inside_outside [OF zero(5) none])
  from length_build_buckets [OF buckets]
  have len: "sum_list (map (\<lambda>b. length (snd b)) buckets) = length ?tweets"
    by simp
  have all: "synced (fst run2) = 0 \<and> files (fst run2) = 0 \<and> snd run2 = [] \<and> errors (fst run2) = []
      \<and> skipped (fst run2) = synced summary1 + skipped summary1
      \<and> skipped (fst run2) = total (fst run2)"
    if every: "list_all ?T buckets"
  proof -
    from every have empty: "?rest = []" by (simp add: list_all_iff filter_empty_conv)
    have "\<forall>b \<in> set buckets. errors (fst (?out1 b)) = []"
      using every writes by (simp add: list_all_iff writes_succeeded_def)
    moreover have "list_all (reads_back H ?f get1 put1 get2) buckets"
      using every seen by (simp add: list_all_iff)
    ultimately have "sum_list (map (\<lambda>b. synced (fst (?out1 b))) buckets)
         + sum_list (map (\<lambda>b. skipped (fst (?out1 b))) buckets)
         = sum_list (map (\<lambda>b. length (snd b)) buckets)"
      using second_run_buckets [OF rt, of ?f get1 put1 get2 put2] by blast
    with y1 k1 len t2 have "synced summary1 + skipped summary1 = total (fst run2)" by simp
    with ys fs ws es ks empty show ?thesis by simp
  qed
  show ?thesis
  proof (intro exI conjI)
    show "syncHomeTimelineToObsidian H cmp get2 put2 db folder_arg = Inr (fst run2, snd run2)"
      by (rule second)
    show "total (fst run2) = total summary1" by (simp add: t1 t2)
    show "\<forall>bucket \<in> set buckets. ?T bucket \<longrightarrow>
            ?out2 bucket = (zero_summary\<lparr>skipped := synced (fst (?out1 bucket))
                                                  + skipped (fst (?out1 bucket))\<rparr>, [])"
      by (rule per)
    show "skipped (fst run2) = synced summary1 + skipped summary1
            + sum_list (map (\<lambda>b. skipped (fst (?out2 b))) ?rest)"
      by (rule ks)
    show "synced (fst run2) = sum_list (map (\<lambda>b. synced (fst (?out2 b))) ?rest)" by (rule ys)
    show "files (fst run2) = sum_list (map (\<lambda>b. files (fst (?out2 b))) ?rest)" by (rule fs)
    show "snd run2 = concat (map (\<lambda>b. snd (?out2 b)) ?rest)" by (rule ws)
    show "list_all ?T buckets \<longrightarrow>
            synced (fst run2) = 0 \<and> files (fst run2) = 0 \<and> snd run2 = [] \<and> errors (fst run2) = []
            \<and> skipped (fst run2) = synced summary1 + skipped summary1
            \<and> skipped (fst run2) = total (fst run2)"
      using all by blast
  qed
qed

text \<open>
  C5 as stated, with the second run skipping as many documents as the first synced,
  fails when the first run skips a document: the vault holds the document 101
  beforehand, the first run syncs two documents and skips one, and the second run skips
  three, not two. And the count holds for the touched buckets only: the vault holds the
  document 201 in the bucket of 2023-09-27 but answers the first read of that file with
  a server error, so the first run syncs one document and skips none; the second run
  reads both files and skips two.
\<close>

theorem skipped_equals_synced_counterexample:
  \<open>sync_twice sample_helpers compareSortIndex_asc stored_101 keyed_db None
     = Inr (\<lparr>total = 3, synced = 2, skipped = 1, files = 1, errors = []\<rparr>,
            \<lparr>total = 3, synced = 0, skipped = 3, files = 0, errors = []\<rparr>)
   \<and> syncHomeTimelineToObsidian sample_helpers compareSortIndex_asc
        (failing_get ''Tweets/2023-09-27.jsonl''
           [(''Tweets/2023-09-27.jsonl'', ''{"id":"201"}'' @ [CHR 0x0A])])
        vault_put two_day_db None
     = Inr (\<lparr>total = 2, synced = 1, skipped = 0, files = 1,
              errors = [''GET Tweets/2023-09-27.jsonl failed (500)'']\<rparr>,
            [(''Tweets/2023-09-28.jsonl'', ''{"id":"202"}'' @ [CHR 0x0A])])
   \<and> syncHomeTimelineToObsidian sample_helpers compareSortIndex_asc
        (vault_get [(''Tweets/2023-09-28.jsonl'', ''{"id":"202"}'' @ [CHR 0x0A]),
                    (''Tweets/2023-09-27.jsonl'', ''{"id":"201"}'' @ [CHR 0x0A])])
        vault_put two_day_db None
     = Inr (\<lparr>total = 2, synced = 0, skipped = 2, files = 0, errors = []\<rparr>, [])\<close>
  by code_simp

lemma sample_buckets:
  "build_buckets sample_helpers [] (extGetCapturedTweets compareSortIndex_asc keyed_db ''HomeTimelineModule'')
     = Some [(''2023-09-28'', [doc_of ''102'', doc_of ''103'', doc_of ''101''])]"
  by code_simp

lemma sample_roundtrip:
  "json_roundtrip sample_helpers
     (concat (map snd [(''2023-09-28'', [doc_of ''102'', doc_of ''103'', doc_of ''101''])]))"
  by code_simp

lemma sample_first_run:
  \<open>syncHomeTimelineToObsidian sample_helpers compareSortIndex_asc (vault_get stored_101) vault_put
      keyed_db None
    = Inr (\<lparr>total = 3, synced = 2, skipped = 1, files = 1, errors = []\<rparr>,
           [(''Tweets/2023-09-28.jsonl'',
             ''{"id":"101"}'' @ [CHR 0x0A] @ ''{"id":"102"}'' @ [CHR 0x0A] @ ''{"id":"103"}'' @ [CHR 0x0A])])\<close>
  by code_simp

lemma sample_writes:
  "list_all (writes_succeeded sample_helpers (folder_of None) (vault_get stored_101) vault_put)
     [(''2023-09-28'', [doc_of ''102'', doc_of ''103'', doc_of ''101''])]"
  by code_simp

lemma sample_reads_back:
  \<open>\<forall>bucket \<in> set [(''2023-09-28'', [doc_of ''102'', doc_of ''103'', doc_of ''101''])].
      touched (folder_of None) (vault_get stored_101) bucket \<longrightarrow>
      reads_back sample_helpers (folder_of None) (vault_get stored_101) vault_put
         (vault_get (rev [(''Tweets/2023-09-28.jsonl'',
             ''{"id":"101"}'' @ [CHR 0x0A] @ ''{"id":"102"}'' @ [CHR 0x0A] @ ''{"id":"103"}'' @ [CHR 0x0A])]
           @ stored_101)) bucket\<close>
  by code_simp

lemma sample_touched:
  "list_all (touched (folder_of None) (vault_get stored_101))
     [(''2023-09-28'', [doc_of ''102'', doc_of ''103'', doc_of ''101''])]"
  by code_simp

lemma two_day_sample:
  "build_buckets sample_helpers [] (extGetCapturedTweets compareSortIndex_asc two_day_db ''HomeTimelineModule'')
     = Some two_day_buckets
   \<and> json_roundtrip sample_helpers (concat (map snd two_day_buckets))
   \<and> list_all (writes_succeeded sample_helpers (folder_of None)
        (failing_get ''Tweets/2023-09-27.jsonl'' []) vault_put) two_day_buckets"
  by code_simp

lemma two_day_first_run:
  \<open>syncHomeTimelineToObsidian sample_helpers compareSortIndex_asc
      (failing_get ''Tweets/2023-09-27.jsonl'' []) vault_put two_day_db None
    = Inr (\<lparr>total = 2, synced = 1, skipped = 0, files = 1,
             errors = [''GET Tweets/2023-09-27.jsonl failed (500)'']\<rparr>,
           [(''Tweets/2023-09-28.jsonl'', ''{"id":"202"}'' @ [CHR 0x0A])])\<close>
  by code_simp

lemma two_day_reads_back:
  \<open>\<forall>bucket \<in> set two_day_buckets.
      touched (folder_of None) (failing_get ''Tweets/2023-09-27.jsonl'' []) bucket \<longrightarrow>
      reads_back sample_helpers (folder_of None) (failing_get ''Tweets/2023-09-27.jsonl'' []) vault_put
        (vault_get [(''Tweets/2023-09-28.jsonl'', ''{"id":"202"}'' @ [CHR 0x0A])]) bucket\<close>
  by code_simp

lemma two_day_touched:
  "touched (folder_of None) (failing_get ''Tweets/2023-09-27.jsonl'' []) (''2023-09-28'', [doc_of ''202''])
   \<and> (''2023-09-28'', [doc_of ''202'']) \<in> set two_day_buckets
   \<and> filter (\<lambda>b. \<not> touched (folder_of None) (failing_get ''Tweets/2023-09-27.jsonl'' []) b)
        two_day_buckets
      = [(''2023-09-27'',
          [\<lparr>doc_id = ''201'', doc_created_at = ''2023-09-27T11:07:25.000Z'', doc_fields = ()\<rparr>])]"
  by code_simp

lemma two_day_second_run:
  \<open>syncHomeTimelineToObsidian sample_helpers compareSortIndex_asc
      (vault_get [(''Tweets/2023-09-28.jsonl'', ''{"id":"202"}'' @ [CHR 0x0A])]) vault_put two_day_db None
    = Inr (\<lparr>total = 2, synced = 1, skipped = 1, files = 1, errors = []\<rparr>,
           [(''Tweets/2023-09-27.jsonl'', ''{"id":"201"}'' @ [CHR 0x0A])])\<close>
  by code_simp

text \<open>
  The sample database against the vault that already holds document 101: the first run
  syncs 2 and skips 1, the second run skips 3 and writes nothing. The database of two
  days against a vault that answers the read of the first bucket with a server error:
  the first run syncs the document of the second bucket; the second run, on the file
  the first left, skips that document and syncs nothing in that bucket.
\<close>

theorem second_sync_skips_all_witness:
  \<open>syncHomeTimelineToObsidian sample_helpers compareSortIndex_asc (vault_get stored_101) vault_put
      keyed_db None
    = Inr (\<lparr>total = 3, synced = 2, skipped = 1, files = 1, errors = []\<rparr>,
           [(''Tweets/2023-09-28.jsonl'',
             ''{"id":"101"}'' @ [CHR 0x0A] @ ''{"id":"102"}'' @ [CHR 0x0A] @ ''{"id":"103"}'' @ [CHR 0x0A])])
   \<and> (\<exists>summary2.
         syncHomeTimelineToObsidian sample_helpers compareSortIndex_asc
           (vault_get (rev [(''Tweets/2023-09-28.jsonl'',
             ''{"id":"101"}'' @ [CHR 0x0A] @ ''{"id":"102"}'' @ [CHR 0x0A] @ ''{"id":"103"}'' @ [CHR 0x0A])]
             @ stored_101))
           vault_put keyed_db None = Inr (summary2, [])
         \<and> synced summary2 = 0 \<and> files summary2 = 0 \<and> errors summary2 = []
         \<and> skipped summary2 = 3)
   \<and> syncHomeTimelineToObsidian sample_helpers compareSortIndex_asc
      (failing_get ''Tweets/2023-09-27.jsonl'' []) vault_put two_day_db None
    = Inr (\<lparr>total = 2, synced = 1, skipped = 0, files = 1,
             errors = [''GET Tweets/2023-09-27.jsonl failed (500)'']\<rparr>,
           [(''Tweets/2023-09-28.jsonl'', ''{"id":"202"}'' @ [CHR 0x0A])])
   \<and> bucket_outcome sample_helpers (folder_of None)
        (vault_get [(''Tweets/2023-09-28.jsonl'', ''{"id":"202"}'' @ [CHR 0x0A])]) vault_put
        (''2023-09-28'', [doc_of ''202''])
      = (\<lparr>total = 0, synced = 0, skipped = 1, files = 0, errors = []\<rparr>, [])
   \<and> syncHomeTimelineToObsidian sample_helpers compareSortIndex_asc
      (vault_get [(''Tweets/2023-09-28.jsonl'', ''{"id":"202"}'' @ [CHR 0x0A])]) vault_put two_day_db None
    = Inr (\<lparr>total = 2, synced = 1, skipped = 1, files = 1, errors = []\<rparr>,
           [(''Tweets/2023-09-27.jsonl'', ''{"id":"201"}'' @ [CHR 0x0A])])\<close>
proof -
  from second_sync_skips_all [OF sample_buckets sample_roundtrip sample_first_run sample_writes
      sample_reads_back, of vault_put] sample_touched
  obtain summary2 written2 where run2:
    \<open>syncHomeTimelineToObsidian sample_helpers compareSortIndex_asc
           (vault_get (rev [(''Tweets/2023-09-28.jsonl'',
             ''{"id":"101"}'' @ [CHR 0x0A] @ ''{"id":"102"}'' @ [CHR 0x0A] @ ''{"id":"103"}'' @ [CHR 0x0A])]
             @ stored_101))
           vault_put keyed_db None = Inr (summary2, written2)\<close>
    and zero: "synced summary2 = 0" "files summary2 = 0" "errors summary2 = []" "written2 = []"
    and sum: "skipped summary2
        = synced \<lparr>total = 3, synced = 2, skipped = 1, files = 1, errors = []\<rparr>
          + skipped \<lparr>total = 3, synced = 2, skipped = 1, files = 1, errors = []\<rparr>"
    by blast
  from sum have "skipped summary2 = 3" by simp
  with run2 zero have one: \<open>\<exists>summary2.
         syncHomeTimelineToObsidian sample_helpers compareSortIndex_asc
           (vault_get (rev [(''Tweets/2023-09-28.jsonl'',
             ''{"id":"101"}'' @ [CHR 0x0A] @ ''{"id":"102"}'' @ [CHR 0x0A] @ ''{"id":"103"}'' @ [CHR 0x0A])]
             @ stored_101))
           vault_put keyed_db None = Inr (summary2, [])
         \<and> synced summary2 = 0 \<and> files summary2 = 0 \<and> errors summary2 = []
         \<and> skipped summary2 = 3\<close>
    by blast
  from two_day_sample have tb: "build_buckets sample_helpers []
        (extGetCapturedTweets compareSortIndex_asc two_day_db ''HomeTimelineModule'') = Some two_day_buckets"
    and trt: "json_roundtrip sample_helpers (concat (map snd two_day_buckets))"
    and tw: "list_all (writes_succeeded sample_helpers (folder_of None)
        (failing_get ''Tweets/2023-09-27.jsonl'' []) vault_put) two_day_buckets"
    by blast+
  from second_sync_skips_all [OF tb trt two_day_first_run tw two_day_reads_back, of vault_put]
    two_day_touched
  have \<open>bucket_outcome sample_helpers (folder_of None)
        (vault_get [(''Tweets/2023-09-28.jsonl'', ''{"id":"202"}'' @ [CHR 0x0A])]) vault_put
        (''2023-09-28'', [doc_of ''202''])
      = (zero_summary\<lparr>skipped :=
           synced (fst (bucket_outcome sample_helpers (folder_of None)
             (failing_get ''Tweets/2023-09-27.jsonl'' []) vault_put (''2023-09-28'', [doc_of ''202''])))
           + skipped (fst (bucket_outcome sample_helpers (folder_of None)
             (failing_get ''Tweets/2023-09-27.jsonl'' []) vault_put (''2023-09-28'', [doc_of ''202''])))\<rparr>, [])\<close>
    by blast
  moreover have "synced (fst (bucket_outcome sample_helpers (folder_of None)
             (failing_get ''Tweets/2023-09-27.jsonl'' []) vault_put (''2023-09-28'', [doc_of ''202''])))
           + skipped (fst (bucket_outcome sample_helpers (folder_of None)
             (failing_get ''Tweets/2023-09-27.jsonl'' []) vault_put (''2023-09-28'', [doc_of ''202''])))
           = 1"
    by code_simp
  ultimately have two: \<open>bucket_outcome sample_helpers (folder_of None)
        (vault_get [(''Tweets/2023-09-28.jsonl'', ''{"id":"202"}'' @ [CHR 0x0A])]) vault_put
        (''2023-09-28'', [doc_of ''202''])
      = (\<lparr>total = 0, synced = 0, skipped = 1, files = 0, errors = []\<rparr>, [])\<close>
    by (simp add: zero_summary_def)
  from sample_first_run one two_day_first_run two two_day_second_run show ?thesis by blast
qed

section \<open>The scheduler tick\<close>





lemma flag_set_at_once:
  "\<not> inFlight s \<Longrightarrow> homeTimelineLastSyncAt s = None \<Longrightarrow>
   tick_enter True True s = (s\<lparr>inFlight := True, signal_value := signal_value s + 1\<rparr>, AwaitSync None)"
  by (simp add: tick_enter_def tick_begin_sync_def)






section \<open>Divergences\<close>

text \<open>
  C2. Two ticks are started one after the other while a last sync is recorded: each
  passes the in-flight test and waits for \<open>db.extGetCapturesSince\<close> before the flag is set,
  so when both reads are answered both ticks start the sync engine and two runs are in
  flight at once. (Without a recorded last sync the flag is set before the first
  \<open>await\<close>, and it is cleared on both paths: \<open>flag_set_at_once\<close>, \<open>flag_cleared\<close>.)
\<close>

theorem two_syncs_in_flight:
  "syncs_in_flight
     (run_events \<lparr>manager = idle_scheduler, pcs = []\<rparr>
        [Fire True True, Fire True True,
         CapturesSettled 0 (Some [capture_of ''101'' 10 None]),
         CapturesSettled 1 (Some [capture_of ''101'' 10 None])]) = 2
   \<and> pcs (run_events \<lparr>manager = idle_scheduler, pcs = []\<rparr> [Fire True True, Fire True True])
      = [AwaitCaptures 5, AwaitCaptures 5]
   \<and> inFlight (manager (run_events \<lparr>manager = idle_scheduler, pcs = []\<rparr> [Fire True True, Fire True True]))
      = False"
  by code_simp

text \<open>
  C1. The tick passes the last-sync offset as a second argument, but the sync engine
  declares no such parameter and reads all captured tweets: with the three captures of
  the sample database created at 10, 20 and 30 and the offset 100, no capture is newer
  than the offset, yet all three tweets are fetched and written.
\<close>

theorem since_argument_ignored:
  \<open>extGetCapturedTweetsSince compareSortIndex_asc keyed_db ''HomeTimelineModule'' 100 = []
   \<and> tick_sync_call sample_helpers compareSortIndex_asc (vault_get []) vault_put keyed_db (Some 100)
     = Inr (\<lparr>total = 3, synced = 3, skipped = 0, files = 1, errors = []\<rparr>,
            [(''Tweets/2023-09-28.jsonl'',
              ''{"id":"102"}'' @ [CHR 0x0A] @ ''{"id":"103"}'' @ [CHR 0x0A] @ ''{"id":"101"}'' @ [CHR 0x0A])])
   \<and> tick_sync_call sample_helpers compareSortIndex_asc (vault_get []) vault_put keyed_db (Some 100)
     = tick_sync_call sample_helpers compareSortIndex_asc (vault_get []) vault_put keyed_db None\<close>
  by code_simp

text \<open>
  C6. A tweet whose time stamp does not parse: the document's \<open>created_at\<close> falls back to
  epoch zero, but the bucket key is formatted from the invalid date itself, so the
  document lands in the bucket \<open>Invalid Date\<close> and not in \<open>1970-01-01\<close>. For a time stamp
  that parses, key and \<open>created_at\<close> come from the same instant.
\<close>

theorem bucket_key_without_fallback:
  "map_option (map doc_created_at) (map_option (concat \<circ> map snd)
       (build_buckets sample_helpers [] (extGetCapturedTweets compareSortIndex_asc undated_db ''HomeTimelineModule'')))
     = Some [''1970-01-01T00:00:00.000Z'']
   \<and> map_option (map fst)
       (build_buckets sample_helpers [] (extGetCapturedTweets compareSortIndex_asc undated_db ''HomeTimelineModule''))
     = Some [''Invalid Date'']
   \<and> utc_date 0 = ''1970-01-01''
   \<and> build_buckets sample_helpers [] [tweet_of ''101'' ''Thu Sep 28 11:07:25 +0000 2023'']
     = Some [(''2023-09-28'',
              [\<lparr>doc_id = ''101'', doc_created_at = ''2023-09-28T11:07:25.000Z'', doc_fields = ()\<rparr>])]"
  by code_simp

end
